theory Spec2Isabelle
  imports Complex_Main "HOL-Library.Word"
begin

section \<open>Thor particle system: data model\<close>

text \<open>
  The development embeds \<^verbatim>\<open>src/ParticleSystem.cpp\<close> of the Thor library.

  \<^item> \<^verbatim>\<open>sf::Time\<close> wraps a signed 64-bit count of microseconds. Signed overflow is undefined
    in C++, so the model uses unbounded integers: it describes the executions in which
    no overflow happens.
  \<^item> \<^verbatim>\<open>float\<close> and \<^verbatim>\<open>sf::Vector2f\<close> are idealised as reals and pairs of reals: rounding
    is not modelled.
  \<^item> \<^verbatim>\<open>sf::Color\<close> holds four bytes.
\<close>

type_synonym Time = int

type_synonym Vector2f = "real \<times> real"

datatype Color = Color "8 word" "8 word" "8 word" "8 word"

text \<open>\<^verbatim>\<open>Time::asSeconds\<close> of SFML: the microseconds divided by \<^verbatim>\<open>1000000.f\<close>.\<close>

definition asSeconds :: "Time \<Rightarrow> real" where
  "asSeconds t = real_of_int t / 1000000"

text \<open>
  Modelled from the spec: the \<^verbatim>\<open>Particle\<close> structure is declared in
  \<^verbatim>\<open>Thor/Particles/Particle.hpp\<close>, which is not among the sources. The fields are those of
  the data model of the specification, under the names the source uses for them.
\<close>

record Particle =
  position :: Vector2f
  velocity :: Vector2f
  rotation :: real
  rotationSpeed :: real
  scale :: Vector2f
  color :: Color
  passedLifetime :: Time
  totalLifetime :: Time

text \<open>
  Modelled from the spec: the entry type of the two registries (\<^verbatim>\<open>Affector\<close> and
  \<^verbatim>\<open>Emitter\<close> in the source) is declared in \<^verbatim>\<open>Thor/Particles/ParticleSystem.hpp\<close>, which
  is not among the sources. The source reads and writes its members \<^verbatim>\<open>function\<close>,
  \<^verbatim>\<open>timeUntilRemoval\<close>, \<^verbatim>\<open>id\<close> and \<^verbatim>\<open>tracker\<close>. The member \<^verbatim>\<open>function\<close> is called \<open>func\<close>
  here and \<^verbatim>\<open>id\<close> is called \<open>entryId\<close>; the tracker is the connection object, which is
  determined by the registry and the identity and is therefore not stored.
\<close>

record 'f Entry =
  func :: 'f
  timeUntilRemoval :: Time
  entryId :: nat

text \<open>
  An affector callback has the signature \<^verbatim>\<open>void(Particle&, sf::Time)\<close>: it is a function
  from the particle and the elapsed time to the particle it leaves behind.

  An emitter callback has the signature \<^verbatim>\<open>void(EmissionAdder&, sf::Time)\<close>. What it does to
  the particle system is a sequence of calls: \<^verbatim>\<open>addParticle\<close> through the emission
  interface, and \<^verbatim>\<open>addAffector\<close> on a particle system it has captured. Adding or removing
  emitters from inside an emitter callback would change the container under iteration and
  is not modelled.

  Both kinds of callback are functions of their arguments: a callback that keeps a state
  of its own between calls, or that reads the particle system, is outside the model.
\<close>

type_synonym AffectorFunction = "Particle \<Rightarrow> Time \<Rightarrow> Particle"

datatype Emission =
  EmitParticle Particle
| RegisterAffector AffectorFunction Time

type_synonym EmitterFunction = "Time \<Rightarrow> Emission list"

type_synonym Affector = "AffectorFunction Entry"

type_synonym Emitter = "EmitterFunction Entry"

datatype Vertex = Vertex Vector2f Color Vector2f

text \<open>
  A ghost trace of the calls the particle system makes: it has no counterpart in the
  source and is never read by the model. Callbacks are recorded with the identity of the
  entry they belong to and with their arguments.
\<close>

datatype Event =
  EmitterCalled nat Time
| AffectorCalled nat Particle Time
| VerticesComputed

text \<open>
  The particle system. The texture is represented by its size, the only thing the source
  asks it for. \<open>nextId\<close> is the counter the entries take their identity from (a static
  counter of the missing header), and \<open>mTrace\<close> is the ghost trace.
\<close>

record ParticleSystem =
  mParticles :: "Particle list"
  mAffectors :: "Affector list"
  mEmitters :: "Emitter list"
  mTexture :: "nat \<times> nat"
  mTextureRect :: "int \<times> int \<times> int \<times> int"
  mVertices :: "Vertex list"
  mNeedsVertexUpdate :: bool
  nextId :: nat
  mTrace :: "Event list"

text \<open>A connection names a registry and the identity of one of its entries.\<close>

datatype Connection = AffectorConnection nat | EmitterConnection nat


section \<open>Registration\<close>

text \<open>\<^verbatim>\<open>std::vector::erase\<close> at a position.\<close>

definition erase :: "'a list \<Rightarrow> nat \<Rightarrow> 'a list" where
  "erase ctr itr = take itr ctr @ drop (Suc itr) ctr"

text \<open>
  \<^verbatim>\<open>incrementCheckExpiry\<close>: the iterator is an index into the container. The decrement is
  the side effect of the second conjunct and happens only when the first one holds.
\<close>

definition incrementCheckExpiry :: "'f Entry list \<Rightarrow> nat \<Rightarrow> Time \<Rightarrow> 'f Entry list \<times> nat" where
  "incrementCheckExpiry ctr itr dt =
     (if timeUntilRemoval (ctr ! itr) \<noteq> 0 then
        (let ctr1 = ctr[itr := (ctr ! itr)\<lparr>timeUntilRemoval := timeUntilRemoval (ctr ! itr) - dt\<rparr>]
         in if timeUntilRemoval (ctr1 ! itr) \<le> 0 then (erase ctr1 itr, itr)
            else (ctr1, itr + 1))
      else (ctr, itr + 1))"

definition addAffector :: "AffectorFunction \<Rightarrow> Time \<Rightarrow> ParticleSystem \<Rightarrow> ParticleSystem \<times> Connection" where
  "addAffector affector t s =
     (s\<lparr>mAffectors := mAffectors s @ [\<lparr>func = affector, timeUntilRemoval = t, entryId = nextId s\<rparr>],
        nextId := nextId s + 1\<rparr>,
      AffectorConnection (nextId s))"

definition clearAffectors :: "ParticleSystem \<Rightarrow> ParticleSystem" where
  "clearAffectors s = s\<lparr>mAffectors := []\<rparr>"

definition addEmitter :: "EmitterFunction \<Rightarrow> Time \<Rightarrow> ParticleSystem \<Rightarrow> ParticleSystem \<times> Connection" where
  "addEmitter emitter t s =
     (s\<lparr>mEmitters := mEmitters s @ [\<lparr>func = emitter, timeUntilRemoval = t, entryId = nextId s\<rparr>],
        nextId := nextId s + 1\<rparr>,
      EmitterConnection (nextId s))"

definition clearEmitters :: "ParticleSystem \<Rightarrow> ParticleSystem" where
  "clearEmitters s = s\<lparr>mEmitters := []\<rparr>"

definition clearParticles :: "ParticleSystem \<Rightarrow> ParticleSystem" where
  "clearParticles s = s\<lparr>mParticles := []\<rparr>"

definition addParticle :: "Particle \<Rightarrow> ParticleSystem \<Rightarrow> ParticleSystem" where
  "addParticle particle s = s\<lparr>mParticles := mParticles s @ [particle]\<rparr>"


section \<open>The update step\<close>

definition updateParticle :: "Particle \<Rightarrow> Time \<Rightarrow> Particle" where
  "updateParticle particle dt =
     (let p1 = particle\<lparr>passedLifetime := passedLifetime particle + dt\<rparr>;
          p2 = p1\<lparr>position := (fst (position p1) + asSeconds dt * fst (velocity p1),
                               snd (position p1) + asSeconds dt * snd (velocity p1))\<rparr>
      in p2\<lparr>rotation := rotation p2 + asSeconds dt * rotationSpeed p2\<rparr>)"

text \<open>One call made by an emitter callback, and the call of the callback itself.\<close>

fun emit :: "Emission \<Rightarrow> ParticleSystem \<Rightarrow> ParticleSystem" where
  "emit (EmitParticle p) s = addParticle p s"
| "emit (RegisterAffector f t) s = fst (addAffector f t s)"

definition callEmitter :: "Emitter \<Rightarrow> Time \<Rightarrow> ParticleSystem \<Rightarrow> ParticleSystem" where
  "callEmitter e dt s =
     fold emit (func e dt) (s\<lparr>mTrace := mTrace s @ [EmitterCalled (entryId e) dt]\<rparr>)"

text \<open>The first loop of \<^verbatim>\<open>update\<close>: emit new particles and remove expiring emitters.\<close>

function emitLoop :: "Time \<Rightarrow> nat \<Rightarrow> ParticleSystem \<Rightarrow> ParticleSystem" where
  "emitLoop dt itr s =
     (if itr < length (mEmitters s) then
        (let s1 = callEmitter (mEmitters s ! itr) dt s;
             r = incrementCheckExpiry (mEmitters s1) itr dt
         in emitLoop dt (snd r) (s1\<lparr>mEmitters := fst r\<rparr>))
      else s)"
  by pat_completeness auto

lemma mEmitters_emit: "mEmitters (emit x s) = mEmitters s"
  by (cases x) (simp_all add: addParticle_def addAffector_def)

lemma mEmitters_fold_emit: "mEmitters (fold emit xs s) = mEmitters s"
  by (induction xs arbitrary: s) (simp_all add: mEmitters_emit)

lemma mEmitters_callEmitter: "mEmitters (callEmitter e dt s) = mEmitters s"
  by (simp add: callEmitter_def mEmitters_fold_emit)

lemma incrementCheckExpiry_measure:
  "itr < length ctr \<Longrightarrow>
   length (fst (incrementCheckExpiry ctr itr dt)) - snd (incrementCheckExpiry ctr itr dt)
     < length ctr - itr"
  by (auto simp: incrementCheckExpiry_def erase_def Let_def)

termination emitLoop
  by (relation "measure (\<lambda>(dt, itr, s). length (mEmitters s) - itr)")
     (simp_all add: mEmitters_callEmitter incrementCheckExpiry_measure)

declare emitLoop.simps [simp del]

text \<open>The affectors applied to the particle under the reader (\<^verbatim>\<open>AURORA_FOREACH\<close>).\<close>

definition callAffector :: "Time \<Rightarrow> nat \<Rightarrow> Affector \<Rightarrow> ParticleSystem \<Rightarrow> ParticleSystem" where
  "callAffector dt reader a s =
     s\<lparr>mParticles := (mParticles s)[reader := func a (mParticles s ! reader) dt],
       mTrace := mTrace s @ [AffectorCalled (entryId a) (mParticles s ! reader) dt]\<rparr>"

text \<open>The second loop of \<^verbatim>\<open>update\<close>, with its two cursors into the particle store.\<close>

function particleLoop :: "Time \<Rightarrow> nat \<Rightarrow> nat \<Rightarrow> ParticleSystem \<Rightarrow> nat \<times> ParticleSystem" where
  "particleLoop dt writer reader s =
     (if reader < length (mParticles s) then
        (let s1 = s\<lparr>mParticles := (mParticles s)[reader := updateParticle (mParticles s ! reader) dt]\<rparr>
         in if passedLifetime (mParticles s1 ! reader) < totalLifetime (mParticles s1 ! reader) then
              (let s2 = fold (callAffector dt reader) (mAffectors s1) s1;
                   s3 = s2\<lparr>mParticles := (mParticles s2)[writer := mParticles s2 ! reader]\<rparr>
               in particleLoop dt (writer + 1) (reader + 1) s3)
            else particleLoop dt writer (reader + 1) s1)
      else (writer, s))"
  by pat_completeness auto

lemma length_fold_callAffector:
  "length (mParticles (fold (callAffector dt reader) as s)) = length (mParticles s)"
  by (induction as arbitrary: s) (simp_all add: callAffector_def)

termination particleLoop
  by (relation "measure (\<lambda>(dt, writer, reader, s). length (mParticles s) - reader)")
     (auto simp: length_fold_callAffector)

declare particleLoop.simps [simp del]

text \<open>The third loop of \<^verbatim>\<open>update\<close>: remove the affectors expiring this frame.\<close>

function expireLoop :: "Time \<Rightarrow> nat \<Rightarrow> ParticleSystem \<Rightarrow> ParticleSystem" where
  "expireLoop dt itr s =
     (if itr < length (mAffectors s) then
        (let r = incrementCheckExpiry (mAffectors s) itr dt
         in expireLoop dt (snd r) (s\<lparr>mAffectors := fst r\<rparr>))
      else s)"
  by pat_completeness auto

termination expireLoop
  by (relation "measure (\<lambda>(dt, itr, s). length (mAffectors s) - itr)")
     (simp_all add: incrementCheckExpiry_measure)

declare expireLoop.simps [simp del]

definition update :: "Time \<Rightarrow> ParticleSystem \<Rightarrow> ParticleSystem" where
  "update dt s =
     (let s0 = s\<lparr>mNeedsVertexUpdate := True\<rparr>;
          s1 = emitLoop dt 0 s0;
          r = particleLoop dt 0 0 s1;
          s2 = (snd r)\<lparr>mParticles := take (fst r) (mParticles (snd r))\<rparr>
      in expireLoop dt 0 s2)"



section \<open>Construction and drawing\<close>

text \<open>
  The two constructors. The identity counter is a static of the program, not a member:
  a new particle system starts from its current value \<open>n\<close>.
\<close>

definition newParticleSystemRect :: "nat \<times> nat \<Rightarrow> int \<times> int \<times> int \<times> int \<Rightarrow> nat \<Rightarrow> ParticleSystem" where
  "newParticleSystemRect texture textureRect n =
     \<lparr>mParticles = [], mAffectors = [], mEmitters = [], mTexture = texture,
      mTextureRect = textureRect, mVertices = [], mNeedsVertexUpdate = True,
      nextId = n, mTrace = []\<rparr>"

definition newParticleSystem :: "nat \<times> nat \<Rightarrow> nat \<Rightarrow> ParticleSystem" where
  "newParticleSystem texture n =
     newParticleSystemRect texture (0, 0, int (fst texture), int (snd texture)) n"

text \<open>
  \<^verbatim>\<open>sf::Transform\<close> of SFML, a 3x3 matrix: \<^verbatim>\<open>combine\<close> multiplies from the right, and
  \<^verbatim>\<open>translate\<close>, \<^verbatim>\<open>rotate\<close> (the angle in degrees) and \<^verbatim>\<open>scale\<close> combine the transform with
  the matrix of the elementary operation.
\<close>

record Transform =
  a00 :: real  a01 :: real  a02 :: real
  a10 :: real  a11 :: real  a12 :: real
  a20 :: real  a21 :: real  a22 :: real

definition Transform_Identity :: Transform where
  "Transform_Identity =
     \<lparr>a00 = 1, a01 = 0, a02 = 0, a10 = 0, a11 = 1, a12 = 0, a20 = 0, a21 = 0, a22 = 1\<rparr>"

definition Transform_combine :: "Transform \<Rightarrow> Transform \<Rightarrow> Transform" where
  "Transform_combine a b =
     \<lparr>a00 = a00 a * a00 b + a01 a * a10 b + a02 a * a20 b,
      a01 = a00 a * a01 b + a01 a * a11 b + a02 a * a21 b,
      a02 = a00 a * a02 b + a01 a * a12 b + a02 a * a22 b,
      a10 = a10 a * a00 b + a11 a * a10 b + a12 a * a20 b,
      a11 = a10 a * a01 b + a11 a * a11 b + a12 a * a21 b,
      a12 = a10 a * a02 b + a11 a * a12 b + a12 a * a22 b,
      a20 = a20 a * a00 b + a21 a * a10 b + a22 a * a20 b,
      a21 = a20 a * a01 b + a21 a * a11 b + a22 a * a21 b,
      a22 = a20 a * a02 b + a21 a * a12 b + a22 a * a22 b\<rparr>"

definition Transform_translate :: "Transform \<Rightarrow> Vector2f \<Rightarrow> Transform" where
  "Transform_translate a v =
     Transform_combine a
       \<lparr>a00 = 1, a01 = 0, a02 = fst v, a10 = 0, a11 = 1, a12 = snd v, a20 = 0, a21 = 0, a22 = 1\<rparr>"

definition Transform_rotate :: "Transform \<Rightarrow> real \<Rightarrow> Transform" where
  "Transform_rotate a angle =
     (let rad = angle * pi / 180
      in Transform_combine a
           \<lparr>a00 = cos rad, a01 = - sin rad, a02 = 0,
            a10 = sin rad, a11 = cos rad, a12 = 0,
            a20 = 0, a21 = 0, a22 = 1\<rparr>)"

definition Transform_scale :: "Transform \<Rightarrow> Vector2f \<Rightarrow> Transform" where
  "Transform_scale a v =
     Transform_combine a
       \<lparr>a00 = fst v, a01 = 0, a02 = 0, a10 = 0, a11 = snd v, a12 = 0, a20 = 0, a21 = 0, a22 = 1\<rparr>"

definition transformPoint :: "Transform \<Rightarrow> Vector2f \<Rightarrow> Vector2f" where
  "transformPoint a v =
     (a00 a * fst v + a01 a * snd v + a02 a, a10 a * fst v + a11 a * snd v + a12 a)"

text \<open>
  Modelled from the spec: \<^verbatim>\<open>perpendicularVector\<close> is declared in
  \<^verbatim>\<open>Thor/Vectors/VectorAlgebra2D.hpp\<close>, which is not among the sources. The specification
  calls its result the 90 degrees rotated counterpart of the half extent.
\<close>

definition perpendicularVector :: "Vector2f \<Rightarrow> Vector2f" where
  "perpendicularVector v = (- snd v, fst v)"

definition negated :: "Vector2f \<Rightarrow> Vector2f" where
  "negated v = (- fst v, - snd v)"

definition positionOffsets :: "ParticleSystem \<Rightarrow> Vector2f list" where
  "positionOffsets s =
     (let halfSize = (real (fst (mTexture s)) / 2, real (snd (mTexture s)) / 2)
      in [negated halfSize, perpendicularVector halfSize, halfSize,
          negated (perpendicularVector halfSize)])"

definition texCoords :: "ParticleSystem \<Rightarrow> Vector2f list" where
  "texCoords s =
     (case mTextureRect s of (rleft, rtop, rwidth, rheight) \<Rightarrow>
        (let left = real_of_int rleft;
             right = real_of_int (rleft + rwidth);
             top = real_of_int rtop;
             bottom = real_of_int (rtop + rheight)
         in [(left, top), (right, top), (right, bottom), (left, bottom)]))"

text \<open>The body of the loop over the particles: the transform, then the four vertices.\<close>

definition appendQuad :: "Vector2f list \<Rightarrow> Vector2f list \<Rightarrow> Particle \<Rightarrow> ParticleSystem \<Rightarrow> ParticleSystem" where
  "appendQuad offsets coords p s =
     (let transform = Transform_scale
            (Transform_rotate (Transform_translate Transform_Identity (position p)) (rotation p))
            (scale p)
      in fold (\<lambda>i s'. s'\<lparr>mVertices := mVertices s' @
                 [Vertex (transformPoint transform (offsets ! i)) (color p) (coords ! i)]\<rparr>)
           [0..<4] s)"

definition computeVertices :: "ParticleSystem \<Rightarrow> ParticleSystem" where
  "computeVertices s =
     fold (appendQuad (positionOffsets s) (texCoords s)) (mParticles s)
       (s\<lparr>mVertices := [], mTrace := mTrace s @ [VerticesComputed]\<rparr>)"

text \<open>
  \<^verbatim>\<open>draw\<close> returns the particle system, whose cache it may rebuild, and what it hands to
  the render target: the vertex array and the texture.
\<close>

definition draw :: "ParticleSystem \<Rightarrow> ParticleSystem \<times> Vertex list \<times> (nat \<times> nat)" where
  "draw s =
     (let s1 = (if mNeedsVertexUpdate s then (computeVertices s)\<lparr>mNeedsVertexUpdate := False\<rparr> else s)
      in (s1, mVertices s1, mTexture s1))"


section \<open>Connections\<close>

text \<open>
  Modelled from the spec: \<^verbatim>\<open>Connection::disconnect\<close> and \<^verbatim>\<open>makeIdConnectionImpl\<close> are
  declared in \<^verbatim>\<open>Thor/Input/Detail/ConnectionImpl.hpp\<close>, which is not among the sources.
  According to the specification the handle is resolved by identity, not by position:
  disconnecting removes the entry of the registry that has the identity of the handle, and
  does nothing when there is none.
\<close>

fun eraseId :: "nat \<Rightarrow> 'f Entry list \<Rightarrow> 'f Entry list" where
  "eraseId i [] = []"
| "eraseId i (e # es) = (if entryId e = i then es else e # eraseId i es)"

fun disconnect :: "Connection \<Rightarrow> ParticleSystem \<Rightarrow> ParticleSystem" where
  "disconnect (AffectorConnection i) s = s\<lparr>mAffectors := eraseId i (mAffectors s)\<rparr>"
| "disconnect (EmitterConnection i) s = s\<lparr>mEmitters := eraseId i (mEmitters s)\<rparr>"

text \<open>One step of the host program: any public operation of the particle system.\<close>

inductive step :: "ParticleSystem \<Rightarrow> ParticleSystem \<Rightarrow> bool" where
  step_addAffector: "step s (fst (addAffector f t s))"
| step_addEmitter: "step s (fst (addEmitter g t s))"
| step_clearAffectors: "step s (clearAffectors s)"
| step_clearEmitters: "step s (clearEmitters s)"
| step_clearParticles: "step s (clearParticles s)"
| step_update: "step s (update dt s)"
| step_draw: "step s (fst (draw s))"
| step_disconnect: "step s (disconnect c s)"

text \<open>Several updates in a row, one for each elapsed time of the list.\<close>

definition updates :: "Time list \<Rightarrow> ParticleSystem \<Rightarrow> ParticleSystem" where
  "updates dts s = fold update dts s"


section \<open>The loops as list functions\<close>

text \<open>
  The functions of this section describe what the three loops of the update step compute,
  in terms of the lists they walk over. The lemmas that follow relate them to the loops.
\<close>

text \<open>The expiry check on one entry: what is left of it, if anything.\<close>

definition expire :: "Time \<Rightarrow> 'f Entry \<Rightarrow> 'f Entry option" where
  "expire dt e =
     (if timeUntilRemoval e = 0 then Some e
      else if timeUntilRemoval e - dt \<le> 0 then None
      else Some (e\<lparr>timeUntilRemoval := timeUntilRemoval e - dt\<rparr>))"

text \<open>
  The test of the particle loop, the registry applied to one particle, the calls this
  makes, the particles that pass the test after integration, and what the particle loop
  leaves of a store.
\<close>

definition alive :: "Particle \<Rightarrow> bool" where
  "alive p = (passedLifetime p < totalLifetime p)"

definition affect :: "Affector list \<Rightarrow> Time \<Rightarrow> Particle \<Rightarrow> Particle" where
  "affect as dt p = fold (\<lambda>a q. func a q dt) as p"

fun affectorCalls :: "Affector list \<Rightarrow> Time \<Rightarrow> Particle \<Rightarrow> Event list" where
  "affectorCalls [] dt p = []"
| "affectorCalls (a # as) dt p = AffectorCalled (entryId a) p dt # affectorCalls as dt (func a p dt)"

definition integrated :: "Time \<Rightarrow> Particle list \<Rightarrow> Particle list" where
  "integrated dt ps = filter alive (map (\<lambda>p. updateParticle p dt) ps)"

definition survivors :: "Affector list \<Rightarrow> Time \<Rightarrow> Particle list \<Rightarrow> Particle list" where
  "survivors as dt ps = map (affect as dt) (integrated dt ps)"

lemma incrementCheckExpiry_expire:
  "itr < length ctr \<Longrightarrow>
   incrementCheckExpiry ctr itr dt =
     (case expire dt (ctr ! itr) of
        None \<Rightarrow> (take itr ctr @ drop (Suc itr) ctr, itr)
      | Some e \<Rightarrow> (ctr[itr := e], Suc itr))"
  by (simp add: incrementCheckExpiry_def expire_def erase_def Let_def)

lemma map_filter_Cons_drop:
  "i < length xs \<Longrightarrow>
   List.map_filter f (drop i xs) =
     (case f (xs ! i) of None \<Rightarrow> [] | Some y \<Rightarrow> [y]) @ List.map_filter f (drop (Suc i) xs)"
  by (simp add: Cons_nth_drop_Suc [symmetric] List.map_filter_simps split: option.splits)

lemma expireLoop_done: "\<not> itr < length (mAffectors s) \<Longrightarrow> expireLoop dt itr s = s"
  by (subst expireLoop.simps) simp

lemma expireLoop_step:
  "itr < length (mAffectors s) \<Longrightarrow>
   expireLoop dt itr s =
     expireLoop dt (snd (incrementCheckExpiry (mAffectors s) itr dt))
       (s\<lparr>mAffectors := fst (incrementCheckExpiry (mAffectors s) itr dt)\<rparr>)"
  by (subst expireLoop.simps) (simp add: Let_def)

lemma expireLoop_eq:
  "itr \<le> length (mAffectors s) \<Longrightarrow>
   expireLoop dt itr s =
     s\<lparr>mAffectors := take itr (mAffectors s) @ List.map_filter (expire dt) (drop itr (mAffectors s))\<rparr>"
proof (induction dt itr s rule: expireLoop.induct)
  case (1 dt itr s)
  show ?case
  proof (cases "itr < length (mAffectors s)")
    case False
    with "1.prems" show ?thesis
      by (simp add: expireLoop_done List.map_filter_simps)
  next
    case True
    show ?thesis
    proof (cases "expire dt (mAffectors s ! itr)")
      case None
      with True "1.IH" [OF True refl] show ?thesis
        by (simp add: expireLoop_step incrementCheckExpiry_expire
            map_filter_Cons_drop [of itr])
    next
      case (Some e)
      with True "1.IH" [OF True refl] show ?thesis
        by (simp add: expireLoop_step incrementCheckExpiry_expire
            map_filter_Cons_drop [of itr] take_Suc_conv_app_nth)
    qed
  qed
qed


text \<open>The calls of the emitters of a list, one after the other.\<close>

definition emitAll :: "Emitter list \<Rightarrow> Time \<Rightarrow> ParticleSystem \<Rightarrow> ParticleSystem" where
  "emitAll es dt s = fold (\<lambda>e. callEmitter e dt) es s"

lemma emit_mEmitters_update: "emit x (s\<lparr>mEmitters := X\<rparr>) = (emit x s)\<lparr>mEmitters := X\<rparr>"
  by (cases x) (simp_all add: addParticle_def addAffector_def)

lemma fold_emit_mEmitters_update:
  "fold emit xs (s\<lparr>mEmitters := X\<rparr>) = (fold emit xs s)\<lparr>mEmitters := X\<rparr>"
  by (induction xs arbitrary: s) (simp_all add: emit_mEmitters_update)

lemma callEmitter_mEmitters_update:
  "callEmitter e dt (s\<lparr>mEmitters := X\<rparr>) = (callEmitter e dt s)\<lparr>mEmitters := X\<rparr>"
proof -
  have swap: "s\<lparr>mEmitters := X, mTrace := T\<rparr> = s\<lparr>mTrace := T, mEmitters := X\<rparr>" for T
    by simp
  show ?thesis
    by (simp add: callEmitter_def swap fold_emit_mEmitters_update)
qed

lemma emitAll_mEmitters_update:
  "emitAll es dt (s\<lparr>mEmitters := X\<rparr>) = (emitAll es dt s)\<lparr>mEmitters := X\<rparr>"
  unfolding emitAll_def
  by (induction es arbitrary: s) (simp_all add: callEmitter_mEmitters_update)

lemma emitAll_drop:
  "i < length es \<Longrightarrow> emitAll (drop i es) dt s = emitAll (drop (Suc i) es) dt (callEmitter (es ! i) dt s)"
  by (simp add: emitAll_def Cons_nth_drop_Suc [symmetric])

lemma emitLoop_done: "\<not> itr < length (mEmitters s) \<Longrightarrow> emitLoop dt itr s = s"
  by (subst emitLoop.simps) simp

lemma emitLoop_step:
  "itr < length (mEmitters s) \<Longrightarrow>
   emitLoop dt itr s =
     emitLoop dt (snd (incrementCheckExpiry (mEmitters s) itr dt))
       ((callEmitter (mEmitters s ! itr) dt s)\<lparr>mEmitters := fst (incrementCheckExpiry (mEmitters s) itr dt)\<rparr>)"
  by (subst emitLoop.simps) (simp add: Let_def mEmitters_callEmitter)

lemma emitLoop_eq:
  "itr \<le> length (mEmitters s) \<Longrightarrow>
   emitLoop dt itr s =
     (emitAll (drop itr (mEmitters s)) dt s)
       \<lparr>mEmitters := take itr (mEmitters s) @ List.map_filter (expire dt) (drop itr (mEmitters s))\<rparr>"
proof (induction dt itr s rule: emitLoop.induct)
  case (1 dt itr s)
  show ?case
  proof (cases "itr < length (mEmitters s)")
    case False
    with "1.prems" show ?thesis
      by (simp add: emitLoop_done List.map_filter_simps emitAll_def)
  next
    case True
    note IH = "1.IH" [OF True refl refl]
    show ?thesis
    proof (cases "expire dt (mEmitters s ! itr)")
      case None
      with True IH show ?thesis
        by (simp add: emitLoop_step incrementCheckExpiry_expire mEmitters_callEmitter
            map_filter_Cons_drop [of itr] emitAll_mEmitters_update emitAll_drop [of itr])
    next
      case (Some e)
      with True IH show ?thesis
        by (simp add: emitLoop_step incrementCheckExpiry_expire mEmitters_callEmitter
            map_filter_Cons_drop [of itr] emitAll_mEmitters_update emitAll_drop [of itr]
            take_Suc_conv_app_nth)
    qed
  qed
qed

lemma fold_callAffector:
  "reader < length (mParticles s) \<Longrightarrow>
   fold (callAffector dt reader) as s =
     s\<lparr>mParticles := (mParticles s)[reader := affect as dt (mParticles s ! reader)],
       mTrace := mTrace s @ affectorCalls as dt (mParticles s ! reader)\<rparr>"
proof (induction as arbitrary: s)
  case Nil
  then show ?case by (simp add: affect_def)
next
  case (Cons a as)
  from Cons.prems have "reader < length (mParticles (callAffector dt reader a s))"
    by (simp add: callAffector_def)
  from Cons.IH [OF this] Cons.prems show ?case
    by (simp add: callAffector_def affect_def)
qed

text \<open>The \<^verbatim>\<open>erase(writer, end)\<close> that follows the particle loop.\<close>

definition eraseDead :: "nat \<times> ParticleSystem \<Rightarrow> ParticleSystem" where
  "eraseDead r = (snd r)\<lparr>mParticles := take (fst r) (mParticles (snd r))\<rparr>"

lemma particleLoop_done:
  "\<not> reader < length (mParticles s) \<Longrightarrow> particleLoop dt writer reader s = (writer, s)"
  by (subst particleLoop.simps) simp

lemma particleLoop_dead:
  "reader < length (mParticles s) \<Longrightarrow> \<not> alive (updateParticle (mParticles s ! reader) dt) \<Longrightarrow>
   particleLoop dt writer reader s =
     particleLoop dt writer (Suc reader)
       (s\<lparr>mParticles := (mParticles s)[reader := updateParticle (mParticles s ! reader) dt]\<rparr>)"
  by (subst particleLoop.simps) (simp add: Let_def alive_def)

lemma particleLoop_alive:
  "reader < length (mParticles s) \<Longrightarrow> alive (updateParticle (mParticles s ! reader) dt) \<Longrightarrow>
   writer \<le> reader \<Longrightarrow>
   particleLoop dt writer reader s =
     particleLoop dt (Suc writer) (Suc reader)
       (s\<lparr>mTrace := mTrace s @ affectorCalls (mAffectors s) dt (updateParticle (mParticles s ! reader) dt),
          mParticles := (mParticles s)
            [reader := affect (mAffectors s) dt (updateParticle (mParticles s ! reader) dt),
             writer := affect (mAffectors s) dt (updateParticle (mParticles s ! reader) dt)]\<rparr>)"
  by (subst particleLoop.simps) (simp add: Let_def alive_def fold_callAffector)

lemma integrated_drop:
  "i < length ps \<Longrightarrow>
   integrated dt (drop i ps) =
     (if alive (updateParticle (ps ! i) dt) then [updateParticle (ps ! i) dt] else [])
       @ integrated dt (drop (Suc i) ps)"
  by (simp add: integrated_def Cons_nth_drop_Suc [symmetric])

lemma take_Suc_update2:
  "w \<le> r \<Longrightarrow> r < length ps \<Longrightarrow> take (Suc w) (ps[r := q, w := q]) = take w ps @ [q]"
  by (cases "w = r") (simp_all add: take_Suc_conv_app_nth)

lemma particleLoop_eq:
  "writer \<le> reader \<Longrightarrow> reader \<le> length (mParticles s) \<Longrightarrow>
   eraseDead (particleLoop dt writer reader s) =
     s\<lparr>mParticles := take writer (mParticles s) @ survivors (mAffectors s) dt (drop reader (mParticles s)),
       mTrace := mTrace s @ concat (map (affectorCalls (mAffectors s) dt) (integrated dt (drop reader (mParticles s))))\<rparr>"
proof (induction dt writer reader s rule: particleLoop.induct)
  case (1 dt writer reader s)
  show ?case
  proof (cases "reader < length (mParticles s)")
    case False
    with "1.prems" show ?thesis
      by (simp add: particleLoop_done eraseDead_def survivors_def integrated_def)
  next
    case True
    let ?q = "updateParticle (mParticles s ! reader) dt"
    let ?s1 = "s\<lparr>mParticles := (mParticles s)[reader := ?q]\<rparr>"
    have q: "mParticles ?s1 ! reader = ?q"
      using True by simp
    show ?thesis
    proof (cases "alive ?q")
      case False
      then have "\<not> passedLifetime (mParticles ?s1 ! reader) < totalLifetime (mParticles ?s1 ! reader)"
        unfolding q by (simp add: alive_def)
      from "1.IH"(2) [OF True refl this] "1.prems" True False show ?thesis
        by (simp add: particleLoop_dead integrated_drop [of reader] survivors_def)
    next
      case alive: True
      then have *: "passedLifetime (mParticles ?s1 ! reader) < totalLifetime (mParticles ?s1 ! reader)"
        unfolding q by (simp add: alive_def)
      from "1.IH"(1) [OF True refl * refl refl] "1.prems" True alive show ?thesis
        by (simp add: particleLoop_alive integrated_drop [of reader] survivors_def
            fold_callAffector take_Suc_update2)
    qed
  qed
qed

text \<open>
  The particles a sequence of emissions appends, and the affectors it registers when the
  identity counter stands at \<open>n\<close>; all emissions of the emitters of a list; the trace of
  their calls.
\<close>

fun particlesOf :: "Emission list \<Rightarrow> Particle list" where
  "particlesOf [] = []"
| "particlesOf (EmitParticle p # xs) = p # particlesOf xs"
| "particlesOf (RegisterAffector f t # xs) = particlesOf xs"

fun affectorsOf :: "nat \<Rightarrow> Emission list \<Rightarrow> Affector list" where
  "affectorsOf n [] = []"
| "affectorsOf n (EmitParticle p # xs) = affectorsOf n xs"
| "affectorsOf n (RegisterAffector f t # xs) =
     \<lparr>func = f, timeUntilRemoval = t, entryId = n\<rparr> # affectorsOf (Suc n) xs"

definition emissions :: "Emitter list \<Rightarrow> Time \<Rightarrow> Emission list" where
  "emissions es dt = concat (map (\<lambda>e. func e dt) es)"

definition emitterCalls :: "Emitter list \<Rightarrow> Time \<Rightarrow> Event list" where
  "emitterCalls es dt = map (\<lambda>e. EmitterCalled (entryId e) dt) es"

lemma particlesOf_append: "particlesOf (xs @ ys) = particlesOf xs @ particlesOf ys"
  by (induction xs rule: particlesOf.induct) simp_all

lemma affectorsOf_append:
  "affectorsOf n (xs @ ys) = affectorsOf n xs @ affectorsOf (n + length (affectorsOf n xs)) ys"
  by (induction n xs rule: affectorsOf.induct) simp_all

lemma fold_emit_fields:
  "mParticles (fold emit xs s) = mParticles s @ particlesOf xs"
  "mAffectors (fold emit xs s) = mAffectors s @ affectorsOf (nextId s) xs"
  "nextId (fold emit xs s) = nextId s + length (affectorsOf (nextId s) xs)"
  "mTrace (fold emit xs s) = mTrace s"
  "mNeedsVertexUpdate (fold emit xs s) = mNeedsVertexUpdate s"
  "mVertices (fold emit xs s) = mVertices s"
  "mTexture (fold emit xs s) = mTexture s"
  "mTextureRect (fold emit xs s) = mTextureRect s"
  by (induction xs arbitrary: s rule: particlesOf.induct)
     (simp_all add: addParticle_def addAffector_def)

lemma callEmitter_fields:
  "mParticles (callEmitter e dt s) = mParticles s @ particlesOf (func e dt)"
  "mAffectors (callEmitter e dt s) = mAffectors s @ affectorsOf (nextId s) (func e dt)"
  "nextId (callEmitter e dt s) = nextId s + length (affectorsOf (nextId s) (func e dt))"
  "mTrace (callEmitter e dt s) = mTrace s @ [EmitterCalled (entryId e) dt]"
  "mNeedsVertexUpdate (callEmitter e dt s) = mNeedsVertexUpdate s"
  "mVertices (callEmitter e dt s) = mVertices s"
  "mTexture (callEmitter e dt s) = mTexture s"
  "mTextureRect (callEmitter e dt s) = mTextureRect s"
  by (simp_all add: callEmitter_def fold_emit_fields)

lemma emitAll_fields:
  "mParticles (emitAll es dt s) = mParticles s @ particlesOf (emissions es dt)"
  "mAffectors (emitAll es dt s) = mAffectors s @ affectorsOf (nextId s) (emissions es dt)"
  "nextId (emitAll es dt s) = nextId s + length (affectorsOf (nextId s) (emissions es dt))"
  "mTrace (emitAll es dt s) = mTrace s @ emitterCalls es dt"
  "mNeedsVertexUpdate (emitAll es dt s) = mNeedsVertexUpdate s"
  "mVertices (emitAll es dt s) = mVertices s"
  "mTexture (emitAll es dt s) = mTexture s"
  "mTextureRect (emitAll es dt s) = mTextureRect s"
  unfolding emitAll_def emissions_def emitterCalls_def
  by (induction es arbitrary: s)
     (simp_all add: callEmitter_fields particlesOf_append affectorsOf_append)

text \<open>The particle system after the first loop of \<^verbatim>\<open>update\<close>.\<close>

definition emitted :: "Time \<Rightarrow> ParticleSystem \<Rightarrow> ParticleSystem" where
  "emitted dt s = emitLoop dt 0 (s\<lparr>mNeedsVertexUpdate := True\<rparr>)"

lemma emitted_fields:
  "mParticles (emitted dt s) = mParticles s @ particlesOf (emissions (mEmitters s) dt)"
  "mAffectors (emitted dt s) = mAffectors s @ affectorsOf (nextId s) (emissions (mEmitters s) dt)"
  "mEmitters (emitted dt s) = List.map_filter (expire dt) (mEmitters s)"
  "nextId (emitted dt s) = nextId s + length (affectorsOf (nextId s) (emissions (mEmitters s) dt))"
  "mTrace (emitted dt s) = mTrace s @ emitterCalls (mEmitters s) dt"
  "mNeedsVertexUpdate (emitted dt s) = True"
  "mVertices (emitted dt s) = mVertices s"
  "mTexture (emitted dt s) = mTexture s"
  "mTextureRect (emitted dt s) = mTextureRect s"
  by (simp_all add: emitted_def emitLoop_eq emitAll_fields)

lemma update_eq:
  "update dt s =
     (emitted dt s)
       \<lparr>mParticles := survivors (mAffectors (emitted dt s)) dt (mParticles (emitted dt s)),
        mTrace := mTrace (emitted dt s) @
          concat (map (affectorCalls (mAffectors (emitted dt s)) dt) (integrated dt (mParticles (emitted dt s)))),
        mAffectors := List.map_filter (expire dt) (mAffectors (emitted dt s))\<rparr>"
proof -
  have "update dt s = expireLoop dt 0 (eraseDead (particleLoop dt 0 0 (emitted dt s)))"
    by (simp add: update_def emitted_def eraseDead_def Let_def)
  then show ?thesis
    by (simp add: particleLoop_eq expireLoop_eq)
qed

lemma update_fields:
  "mParticles (update dt s) = survivors (mAffectors (emitted dt s)) dt (mParticles (emitted dt s))"
  "mAffectors (update dt s) = List.map_filter (expire dt) (mAffectors (emitted dt s))"
  "mEmitters (update dt s) = List.map_filter (expire dt) (mEmitters s)"
  "nextId (update dt s) = nextId (emitted dt s)"
  "mTrace (update dt s) = mTrace s @ emitterCalls (mEmitters s) dt @
     concat (map (affectorCalls (mAffectors (emitted dt s)) dt) (integrated dt (mParticles (emitted dt s))))"
  "mNeedsVertexUpdate (update dt s) = True"
  "mVertices (update dt s) = mVertices s"
  "mTexture (update dt s) = mTexture s"
  "mTextureRect (update dt s) = mTextureRect s"
  by (simp_all add: update_eq emitted_fields)


section \<open>A running example\<close>

text \<open>
  The scenario of the specification: a texture of size 2x2, an affector without time limit
  that paints the particle red, and an emitter without time limit that appends one
  particle at the origin with velocity (1, 0) and a lifetime of one second.
\<close>

definition white :: Color where
  "white = Color 255 255 255 255"

definition red :: Color where
  "red = Color 255 0 0 255"

definition exParticle :: Particle where
  "exParticle = \<lparr>position = (0, 0), velocity = (1, 0), rotation = 0, rotationSpeed = 0,
     scale = (1, 1), color = white, passedLifetime = 0, totalLifetime = 1000000\<rparr>"

definition redAffector :: AffectorFunction where
  "redAffector p dt = p\<lparr>color := red\<rparr>"

definition exEmitter :: EmitterFunction where
  "exEmitter dt = [EmitParticle exParticle]"

definition exSystem :: ParticleSystem where
  "exSystem = fst (addEmitter exEmitter 0 (fst (addAffector redAffector 0 (newParticleSystem (2, 2) 0))))"

text \<open>
  An affector that uses up the lifetime of the particle, and the example with this affector
  in place of the red one.
\<close>

definition killer :: AffectorFunction where
  "killer p dt = p\<lparr>passedLifetime := totalLifetime p\<rparr>"

definition killSystem :: ParticleSystem where
  "killSystem = fst (addEmitter exEmitter 0 (fst (addAffector killer 0 (newParticleSystem (2, 2) 0))))"

definition killed :: Particle where
  "killed = exParticle\<lparr>position := (1/2, 0), passedLifetime := 1000000\<rparr>"

text \<open>The example after one update of half a second and one draw.\<close>

definition drawnSystem :: ParticleSystem where
  "drawnSystem = fst (draw (update 500000 exSystem))"

text \<open>A particle that is rotated by 90 degrees and stretched along its own first axis.\<close>

definition rotParticle :: Particle where
  "rotParticle = exParticle\<lparr>rotation := 90, scale := (2, 1)\<rparr>"

definition rotSystem :: ParticleSystem where
  "rotSystem = update 0 (fst (addEmitter (\<lambda>dt. [EmitParticle rotParticle]) 0 (newParticleSystem (2, 2) 0)))"

lemma exSystem_fields:
  "mParticles exSystem = []"
  "mAffectors exSystem = [\<lparr>func = redAffector, timeUntilRemoval = 0, entryId = 0\<rparr>]"
  "mEmitters exSystem = [\<lparr>func = exEmitter, timeUntilRemoval = 0, entryId = 1\<rparr>]"
  "nextId exSystem = 2"
  "mTrace exSystem = []"
  by (simp_all add: exSystem_def addEmitter_def addAffector_def newParticleSystem_def
      newParticleSystemRect_def)

lemma exSystem_emitted:
  "mParticles (emitted dt exSystem) = [exParticle]"
  "mAffectors (emitted dt exSystem) = [\<lparr>func = redAffector, timeUntilRemoval = 0, entryId = 0\<rparr>]"
  by (simp_all add: emitted_fields exSystem_fields emissions_def exEmitter_def)

lemma updateParticle_exParticle:
  "updateParticle exParticle 500000 = exParticle\<lparr>position := (1/2, 0), passedLifetime := 500000\<rparr>"
  by (simp add: updateParticle_def exParticle_def asSeconds_def Let_def)


section \<open>Particles emitted during an update\<close>

text \<open>
  Claim C1 as stated fails: the store of the example is empty, its emitter appends one
  particle during the update, and after the update that particle has aged by the elapsed
  time of this very update and has moved (and it has been affected).
\<close>

theorem C1_counterexample:
  "mParticles exSystem = [] \<and>
   particlesOf (emissions (mEmitters exSystem) 500000) = [exParticle] \<and>
   mParticles (update 500000 exSystem) =
     [exParticle\<lparr>position := (1/2, 0), color := red, passedLifetime := 500000\<rparr>] \<and>
   exParticle\<lparr>position := (1/2, 0), color := red, passedLifetime := 500000\<rparr> \<noteq> exParticle"
  apply (simp add: update_fields exSystem_emitted exSystem_fields survivors_def integrated_def
      updateParticle_exParticle alive_def affect_def redAffector_def emissions_def exEmitter_def)
  apply (simp add: exParticle_def)
  done

text \<open>
  Claim C1, amended: the particles that the emitter callbacks append during the emission
  pass of an update are placed behind the particles already in the store, and the particle
  pass of the same update then treats them like all others: each is integrated with this
  update's elapsed time, culled if it is dead after that, and affected otherwise.
\<close>

theorem C1_emitted_particles_integrated:
  "mParticles (emitted dt s) = mParticles s @ particlesOf (emissions (mEmitters s) dt) \<and>
   mParticles (update dt s) =
     map (affect (mAffectors (emitted dt s)) dt)
       (filter alive (map (\<lambda>p. updateParticle p dt)
          (mParticles s @ particlesOf (emissions (mEmitters s) dt))))"
  by (simp add: update_fields emitted_fields survivors_def integrated_def)


section \<open>Affectors during an update\<close>

text \<open>
  Claim C2: an affector that an emitter callback registers during the emission pass of an
  update is in the registry when the particle pass of the same update reads it. The
  registry of the particle pass is the old one followed by the new entries in the order of
  their registration; every particle that survives the culling of this update is passed
  through all of it, in that order, and the trace shows each of these calls.
\<close>

theorem C2_affectors_registered_while_emitting:
  "mAffectors (emitted dt s) = mAffectors s @ affectorsOf (nextId s) (emissions (mEmitters s) dt) \<and>
   mParticles (update dt s) =
     map (affect (mAffectors s @ affectorsOf (nextId s) (emissions (mEmitters s) dt)) dt)
       (integrated dt (mParticles (emitted dt s))) \<and>
   mTrace (update dt s) =
     mTrace s @ emitterCalls (mEmitters s) dt @
     concat (map (affectorCalls (mAffectors s @ affectorsOf (nextId s) (emissions (mEmitters s) dt)) dt)
       (integrated dt (mParticles (emitted dt s))))"
  by (simp add: update_fields emitted_fields survivors_def)

text \<open>
  The particle an affector observes is the integrated particle as the affectors before it
  in the registry have left it.
\<close>

lemma affectorCalls_observed:
  "AffectorCalled i p t \<in> set (affectorCalls as dt q) \<Longrightarrow>
   \<exists>k<length as. i = entryId (as ! k) \<and> p = affect (take k as) dt q \<and> t = dt"
proof (induction as arbitrary: q)
  case Nil
  then show ?case by simp
next
  case (Cons a as)
  from Cons.prems consider "i = entryId a \<and> p = q \<and> t = dt"
    | "AffectorCalled i p t \<in> set (affectorCalls as dt (func a q dt))"
    by auto
  then show ?case
  proof cases
    case 1
    then have "i = entryId ((a # as) ! 0) \<and> p = affect (take 0 (a # as)) dt q \<and> t = dt"
      by (simp add: affect_def)
    then show ?thesis by blast
  next
    case 2
    from Cons.IH [OF 2] obtain k where k: "k < length as" "i = entryId (as ! k)"
      "p = affect (take k as) dt (func a q dt)" "t = dt"
      by blast
    then have "Suc k < length (a # as) \<and> i = entryId ((a # as) ! Suc k)
        \<and> p = affect (take (Suc k) (a # as)) dt q \<and> t = dt"
      by (simp add: affect_def)
    then show ?thesis by blast
  qed
qed

text \<open>The events an update adds to the trace.\<close>

definition newEvents :: "Time \<Rightarrow> ParticleSystem \<Rightarrow> Event list" where
  "newEvents dt s = drop (length (mTrace s)) (mTrace (update dt s))"

lemma newEvents_eq:
  "newEvents dt s = emitterCalls (mEmitters s) dt @
     concat (map (affectorCalls (mAffectors (emitted dt s)) dt) (integrated dt (mParticles (emitted dt s))))"
  by (simp add: newEvents_def update_fields)

lemma newEvents_observed:
  assumes "AffectorCalled i p t \<in> set (newEvents dt s)"
  shows "\<exists>q k. q \<in> set (mParticles (emitted dt s)) \<and> alive (updateParticle q dt) \<and>
           k < length (mAffectors (emitted dt s)) \<and>
           i = entryId (mAffectors (emitted dt s) ! k) \<and>
           p = affect (take k (mAffectors (emitted dt s))) dt (updateParticle q dt)"
proof -
  from assms obtain q' where q': "q' \<in> set (integrated dt (mParticles (emitted dt s)))"
    "AffectorCalled i p t \<in> set (affectorCalls (mAffectors (emitted dt s)) dt q')"
    by (auto simp: newEvents_eq emitterCalls_def)
  from q'(1) obtain q where q: "q \<in> set (mParticles (emitted dt s))" "q' = updateParticle q dt" "alive q'"
    by (auto simp: integrated_def)
  from affectorCalls_observed [OF q'(2)] q show ?thesis
    by blast
qed

text \<open>
  Claim C3: the store after an update holds one particle for each particle that is alive
  after the integration of this update, and no other; the affector calls of the update
  are made for these particles only. Every particle an affector observes is one that was
  alive after integration, as changed by the affectors called before on the same particle
  in the same pass: when an affector observes a particle whose passed lifetime has reached
  the total one, an earlier affector has made it so, not the ageing.
\<close>

theorem C3_only_living_particles_affected:
  "mParticles (update dt s) =
     map (affect (mAffectors (emitted dt s)) dt)
       (filter alive (map (\<lambda>p. updateParticle p dt) (mParticles (emitted dt s)))) \<and>
   newEvents dt s = emitterCalls (mEmitters s) dt @
     concat (map (affectorCalls (mAffectors (emitted dt s)) dt)
       (filter alive (map (\<lambda>p. updateParticle p dt) (mParticles (emitted dt s))))) \<and>
   (\<forall>ev \<in> set (newEvents dt s). \<forall>i p t. ev = AffectorCalled i p t \<longrightarrow>
      (\<exists>q k. q \<in> set (mParticles (emitted dt s)) \<and> alive (updateParticle q dt) \<and>
         k < length (mAffectors (emitted dt s)) \<and>
         i = entryId (mAffectors (emitted dt s) ! k) \<and>
         p = affect (take k (mAffectors (emitted dt s))) dt (updateParticle q dt)))"
proof (intro conjI ballI allI impI)
  show "mParticles (update dt s) =
     map (affect (mAffectors (emitted dt s)) dt)
       (filter alive (map (\<lambda>p. updateParticle p dt) (mParticles (emitted dt s))))"
    by (simp add: update_fields survivors_def integrated_def)
  show "newEvents dt s = emitterCalls (mEmitters s) dt @
     concat (map (affectorCalls (mAffectors (emitted dt s)) dt)
       (filter alive (map (\<lambda>p. updateParticle p dt) (mParticles (emitted dt s)))))"
    by (simp add: newEvents_eq integrated_def)
next
  fix ev i p t
  assume "ev \<in> set (newEvents dt s)" "ev = AffectorCalled i p t"
  then have "AffectorCalled i p t \<in> set (newEvents dt s)" by simp
  then show "\<exists>q k. q \<in> set (mParticles (emitted dt s)) \<and> alive (updateParticle q dt) \<and>
         k < length (mAffectors (emitted dt s)) \<and>
         i = entryId (mAffectors (emitted dt s) ! k) \<and>
         p = affect (take k (mAffectors (emitted dt s))) dt (updateParticle q dt)"
    by (rule newEvents_observed)
qed

theorem C3_witness:
  "AffectorCalled 0 (updateParticle exParticle 500000) 500000 \<in> set (newEvents 500000 exSystem) \<and>
   (\<exists>q k. q \<in> set (mParticles (emitted 500000 exSystem)) \<and> alive (updateParticle q 500000) \<and>
      k < length (mAffectors (emitted 500000 exSystem)) \<and>
      0 = entryId (mAffectors (emitted 500000 exSystem) ! k) \<and>
      updateParticle exParticle 500000 =
        affect (take k (mAffectors (emitted 500000 exSystem))) 500000 (updateParticle q 500000))"
proof -
  have "alive (updateParticle exParticle 500000)"
    by (simp add: updateParticle_exParticle alive_def) (simp add: exParticle_def)
  then have "AffectorCalled 0 (updateParticle exParticle 500000) 500000 \<in> set (newEvents 500000 exSystem)"
    by (simp add: newEvents_eq exSystem_emitted integrated_def)
  with C3_only_living_particles_affected [of 500000 exSystem] show ?thesis
    by blast
qed


section \<open>Compaction of the particle store\<close>

text \<open>
  Claim C7: after an update the store consists of the survivors alone, in the order in
  which the particle pass met them: first those of the particles that were in the store
  before the update, in their old relative order, then those of the particles emitted
  during the update. Its size is the number of survivors.
\<close>

theorem C7_compaction_keeps_order:
  "mParticles (update dt s) =
     map (affect (mAffectors (emitted dt s)) dt)
       (filter alive (map (\<lambda>p. updateParticle p dt) (mParticles s))) @
     map (affect (mAffectors (emitted dt s)) dt)
       (filter alive (map (\<lambda>p. updateParticle p dt) (particlesOf (emissions (mEmitters s) dt)))) \<and>
   length (mParticles (update dt s)) =
     length (filter (\<lambda>p. alive (updateParticle p dt)) (mParticles (emitted dt s)))"
  by (simp add: update_fields emitted_fields survivors_def integrated_def filter_map comp_def)


section \<open>Expiry of emitters and affectors\<close>

text \<open>What is left of an entry after it has gone through the expiry check of several updates.\<close>

fun expireAll :: "Time list \<Rightarrow> 'f Entry \<Rightarrow> 'f Entry option" where
  "expireAll [] e = Some e"
| "expireAll (dt # dts) e = (case expire dt e of None \<Rightarrow> None | Some e' \<Rightarrow> expireAll dts e')"

lemma expire_entryId: "expire dt e = Some e' \<Longrightarrow> entryId e' = entryId e \<and> func e' = func e"
  by (auto simp: expire_def split: if_splits)

lemma expireAll_entryId: "expireAll dts e = Some e' \<Longrightarrow> entryId e' = entryId e \<and> func e' = func e"
proof (induction dts arbitrary: e)
  case Nil
  then show ?case by simp
next
  case (Cons dt dts)
  then show ?case
    by (auto split: option.splits dest!: expire_entryId)
qed

lemma expireAll_zero: "timeUntilRemoval e = 0 \<Longrightarrow> expireAll dts e = Some e"
  by (induction dts) (simp_all add: expire_def)

lemma expireAll_finite:
  "timeUntilRemoval e \<noteq> 0 \<Longrightarrow>
   expireAll dts e =
     (if \<forall>k<length dts. sum_list (take (Suc k) dts) < timeUntilRemoval e
      then Some (e\<lparr>timeUntilRemoval := timeUntilRemoval e - sum_list dts\<rparr>) else None)"
proof (induction dts arbitrary: e)
  case Nil
  then show ?case by simp
next
  case (Cons dt dts)
  show ?case
  proof (cases "timeUntilRemoval e - dt \<le> 0")
    case True
    then have "\<not> sum_list (take (Suc 0) (dt # dts)) < timeUntilRemoval e"
      by simp
    then have "\<not> (\<forall>k<length (dt # dts). sum_list (take (Suc k) (dt # dts)) < timeUntilRemoval e)"
      by (metis length_Cons zero_less_Suc)
    with True Cons.prems show ?thesis
      by (simp add: expire_def)
  next
    case False
    let ?e = "e\<lparr>timeUntilRemoval := timeUntilRemoval e - dt\<rparr>"
    from False have ne: "timeUntilRemoval ?e \<noteq> 0" by simp
    have "(\<forall>k<length (dt # dts). sum_list (take (Suc k) (dt # dts)) < timeUntilRemoval e)
        = (\<forall>k<length dts. sum_list (take (Suc k) dts) < timeUntilRemoval ?e)"
      using False by (auto simp: All_less_Suc2 less_diff_eq algebra_simps)
    with Cons.IH [OF ne] False Cons.prems show ?thesis
      by (simp add: expire_def algebra_simps)
  qed
qed

lemma map_filter_append: "List.map_filter f (xs @ ys) = List.map_filter f xs @ List.map_filter f ys"
  by (simp add: List.map_filter_def)

lemma map_filter_map_filter:
  "List.map_filter g (List.map_filter f xs) =
     List.map_filter (\<lambda>x. case f x of None \<Rightarrow> None | Some y \<Rightarrow> g y) xs"
  by (induction xs) (simp_all add: List.map_filter_simps split: option.splits)

lemma mEmitters_updates: "mEmitters (updates dts s) = List.map_filter (expireAll dts) (mEmitters s)"
proof (induction dts arbitrary: s)
  case Nil
  then show ?case by (simp add: updates_def List.map_filter_def)
next
  case (Cons dt dts)
  have "updates (dt # dts) s = updates dts (update dt s)"
    by (simp add: updates_def)
  with Cons.IH [of "update dt s"] show ?case
    by (simp add: update_fields map_filter_map_filter)
qed

lemma nextId_emitted: "nextId s \<le> nextId (emitted dt s)"
  by (simp add: emitted_fields)

lemma affectorsOf_ids: "e \<in> set (affectorsOf n xs) \<Longrightarrow> n \<le> entryId e"
  by (induction n xs arbitrary: e rule: affectorsOf.induct) (auto intro: Suc_leD)

lemma affectorsOf_ids_less: "e \<in> set (affectorsOf n xs) \<Longrightarrow> entryId e < n + length (affectorsOf n xs)"
  by (induction n xs arbitrary: e rule: affectorsOf.induct) fastforce+

lemma distinct_affectorsOf: "distinct (map entryId (affectorsOf n xs))"
  by (induction n xs rule: affectorsOf.induct) (auto dest: affectorsOf_ids)

lemma set_map_filter: "set (List.map_filter f xs) = {y. \<exists>x\<in>set xs. f x = Some y}"
  by (induction xs) (auto simp: List.map_filter_simps split: option.splits)

lemma expireAll_Cons_fun:
  "expireAll (dt # dts) = (\<lambda>e. case expire dt e of None \<Rightarrow> None | Some e' \<Rightarrow> expireAll dts e')"
  by (rule ext) simp

lemma mAffectors_updates:
  "\<exists>rest. mAffectors (updates dts s) = List.map_filter (expireAll dts) (mAffectors s) @ rest \<and>
     (\<forall>e\<in>set rest. nextId s \<le> entryId e)"
proof (induction dts arbitrary: s)
  case Nil
  then show ?case by (simp add: updates_def List.map_filter_def)
next
  case (Cons dt dts)
  let ?new = "affectorsOf (nextId s) (emissions (mEmitters s) dt)"
  have upd: "updates (dt # dts) s = updates dts (update dt s)"
    by (simp add: updates_def)
  from Cons.IH [of "update dt s"] obtain rest where
    rest: "mAffectors (updates dts (update dt s)) =
        List.map_filter (expireAll dts) (mAffectors (update dt s)) @ rest"
      "\<forall>e\<in>set rest. nextId (update dt s) \<le> entryId e"
    by blast
  let ?rest = "List.map_filter (expireAll (dt # dts)) ?new @ rest"
  have "mAffectors (updates (dt # dts) s) = List.map_filter (expireAll (dt # dts)) (mAffectors s) @ ?rest"
    using rest(1)
    by (simp add: upd update_fields emitted_fields map_filter_append map_filter_map_filter
        expireAll_Cons_fun del: expireAll.simps)
  moreover have "\<forall>e\<in>set ?rest. nextId s \<le> entryId e"
  proof
    fix e assume "e \<in> set ?rest"
    then consider e0 where "e0 \<in> set ?new" "expireAll (dt # dts) e0 = Some e" | "e \<in> set rest"
      by (auto simp: set_map_filter)
    then show "nextId s \<le> entryId e"
    proof cases
      case 1
      from expireAll_entryId [OF 1(2)] affectorsOf_ids [OF 1(1)] show ?thesis by simp
    next
      case 2
      with rest(2) have "nextId (update dt s) \<le> entryId e" by blast
      then show ?thesis by (simp add: update_fields emitted_fields)
    qed
  qed
  ultimately show ?case by blast
qed

text \<open>
  The invariant of the registries: the identities in use are below the counter, and no two
  entries of a registry share one.
\<close>

definition wellFormed :: "ParticleSystem \<Rightarrow> bool" where
  "wellFormed s =
     ((\<forall>e\<in>set (mAffectors s). entryId e < nextId s) \<and>
      (\<forall>e\<in>set (mEmitters s). entryId e < nextId s) \<and>
      distinct (map entryId (mAffectors s)) \<and>
      distinct (map entryId (mEmitters s)))"

text \<open>The identities of the emitters, and of the affectors, called in a trace.\<close>

fun emitterCalledIds :: "Event list \<Rightarrow> nat list" where
  "emitterCalledIds [] = []"
| "emitterCalledIds (EmitterCalled i t # evs) = i # emitterCalledIds evs"
| "emitterCalledIds (ev # evs) = emitterCalledIds evs"

fun affectorCalledIds :: "Event list \<Rightarrow> nat list" where
  "affectorCalledIds [] = []"
| "affectorCalledIds (AffectorCalled i p t # evs) = i # affectorCalledIds evs"
| "affectorCalledIds (ev # evs) = affectorCalledIds evs"

lemma emitterCalledIds_append:
  "emitterCalledIds (xs @ ys) = emitterCalledIds xs @ emitterCalledIds ys"
  by (induction xs rule: emitterCalledIds.induct) simp_all

lemma affectorCalledIds_append:
  "affectorCalledIds (xs @ ys) = affectorCalledIds xs @ affectorCalledIds ys"
  by (induction xs rule: affectorCalledIds.induct) simp_all

lemma calledIds_emitterCalls:
  "emitterCalledIds (emitterCalls es dt) = map entryId es"
  "affectorCalledIds (emitterCalls es dt) = []"
  by (induction es) (simp_all add: emitterCalls_def)

lemma calledIds_affectorCalls:
  "emitterCalledIds (affectorCalls as dt q) = []"
  "affectorCalledIds (affectorCalls as dt q) = map entryId as"
  by (induction as arbitrary: q) simp_all

lemma calledIds_concat_affectorCalls:
  "emitterCalledIds (concat (map (affectorCalls as dt) qs)) = []"
  "affectorCalledIds (concat (map (affectorCalls as dt) qs)) =
     concat (replicate (length qs) (map entryId as))"
  by (induction qs)
     (simp_all add: emitterCalledIds_append affectorCalledIds_append calledIds_affectorCalls)

lemma length_integrated:
  "length (integrated dt ps) = length (filter (\<lambda>p. alive (updateParticle p dt)) ps)"
  by (simp add: integrated_def filter_map comp_def)

lemma calledIds_newEvents:
  "emitterCalledIds (newEvents dt s) = map entryId (mEmitters s)"
  "affectorCalledIds (newEvents dt s) =
     concat (replicate
       (length (filter (\<lambda>p. alive (updateParticle p dt))
          (mParticles s @ particlesOf (emissions (mEmitters s) dt))))
       (map entryId (mAffectors s @ affectorsOf (nextId s) (emissions (mEmitters s) dt))))"
  by (simp_all add: newEvents_eq emitterCalledIds_append affectorCalledIds_append
      calledIds_emitterCalls calledIds_concat_affectorCalls length_integrated
      emitted_fields del: map_append filter_append)

text \<open>
  The remaining time of an entry registered with duration \<open>D\<close> after updates with the
  elapsed times \<open>dts\<close>, if it is still registered: the sums are the elapsed times
  accumulated after the first update, after the second, and so on.
\<close>

definition remaining :: "Time \<Rightarrow> Time list \<Rightarrow> Time option" where
  "remaining D dts =
     (if D = 0 then Some 0
      else if \<forall>k<length dts. sum_list (take (Suc k) dts) < D then Some (D - sum_list dts)
      else None)"

lemma expireAll_remaining:
  "expireAll dts e =
     (case remaining (timeUntilRemoval e) dts of None \<Rightarrow> None
      | Some t \<Rightarrow> Some (e\<lparr>timeUntilRemoval := t\<rparr>))"
  by (cases "timeUntilRemoval e = 0") (simp_all add: remaining_def expireAll_zero expireAll_finite)

lemma filter_id_map_filter_expireAll:
  "\<forall>e\<in>set es. entryId e \<noteq> i \<Longrightarrow>
   filter (\<lambda>e. entryId e = i) (List.map_filter (expireAll dts) es) = []"
  by (auto simp: filter_empty_conv set_map_filter dest!: expireAll_entryId)

lemma filter_id_registered:
  assumes "\<forall>e\<in>set es. entryId e < i" and "\<forall>e\<in>set rest. i < entryId e"
  shows "filter (\<lambda>e. entryId e = i)
           (List.map_filter (expireAll dts) (es @ [\<lparr>func = f, timeUntilRemoval = D, entryId = i\<rparr>]) @ rest) =
         (case remaining D dts of None \<Rightarrow> []
          | Some t \<Rightarrow> [\<lparr>func = f, timeUntilRemoval = t, entryId = i\<rparr>])"
proof -
  from assms(1) have "\<forall>e\<in>set es. entryId e \<noteq> i" by auto
  then have 1: "filter (\<lambda>e. entryId e = i) (List.map_filter (expireAll dts) es) = []"
    by (rule filter_id_map_filter_expireAll)
  from assms(2) have 2: "filter (\<lambda>e. entryId e = i) rest = []"
    by (auto simp: filter_empty_conv)
  show ?thesis
    by (simp add: map_filter_append 1 2 List.map_filter_simps expireAll_remaining
        split: option.splits)
qed


text \<open>
  Claim C6: an emitter or an affector is registered with duration \<open>D\<close> in a well-formed
  particle system, under the next free identity, and then the updates with the elapsed
  times \<open>dts\<close> run. With \<open>D = 0\<close> the entry is in its registry after all of them, unchanged.
  Otherwise it is there exactly if the elapsed time accumulated since the registration
  has stayed below \<open>D\<close> after each of these updates, and its remaining time is \<open>D\<close> minus the
  sum; once the accumulated time has reached \<open>D\<close> the entry is gone for good. An update
  calls every emitter that is in the registry when the update starts exactly once and in
  the order of the registry, hence also the one that expires in this update; and it calls
  every affector of the registry, in its order, once for each particle, of the store or
  emitted in this update, that is alive after the integration of this update. Both are
  stated from the particle system the update starts from.
\<close>

theorem C6_expiry_of_registrations:
  assumes "wellFormed s"
  shows "filter (\<lambda>e. entryId e = nextId s) (mEmitters (updates dts (fst (addEmitter g D s)))) =
           (case remaining D dts of None \<Rightarrow> []
            | Some t \<Rightarrow> [\<lparr>func = g, timeUntilRemoval = t, entryId = nextId s\<rparr>]) \<and>
         filter (\<lambda>e. entryId e = nextId s) (mAffectors (updates dts (fst (addAffector f D s)))) =
           (case remaining D dts of None \<Rightarrow> []
            | Some t \<Rightarrow> [\<lparr>func = f, timeUntilRemoval = t, entryId = nextId s\<rparr>]) \<and>
         emitterCalledIds (newEvents dt r) = map entryId (mEmitters r) \<and>
         affectorCalledIds (newEvents dt r) =
           concat (replicate
             (length (filter (\<lambda>p. alive (updateParticle p dt))
                (mParticles r @ particlesOf (emissions (mEmitters r) dt))))
             (map entryId (mAffectors r @ affectorsOf (nextId r) (emissions (mEmitters r) dt))))"
proof (intro conjI)
  from assms have ids: "\<forall>e\<in>set (mEmitters s). entryId e < nextId s"
    "\<forall>e\<in>set (mAffectors s). entryId e < nextId s"
    by (simp_all add: wellFormed_def)
  have none: "\<forall>e\<in>set ([] :: 'a Entry list). nextId s < entryId e" for s
    by simp
  show "filter (\<lambda>e. entryId e = nextId s) (mEmitters (updates dts (fst (addEmitter g D s)))) =
           (case remaining D dts of None \<Rightarrow> []
            | Some t \<Rightarrow> [\<lparr>func = g, timeUntilRemoval = t, entryId = nextId s\<rparr>])"
    using filter_id_registered [OF ids(1), of "[]" dts g D]
    by (simp add: mEmitters_updates addEmitter_def)
  obtain rest where rest:
    "mAffectors (updates dts (fst (addAffector f D s))) =
       List.map_filter (expireAll dts) (mAffectors (fst (addAffector f D s))) @ rest"
    "\<forall>e\<in>set rest. nextId (fst (addAffector f D s)) \<le> entryId e"
    using mAffectors_updates [of dts "fst (addAffector f D s)"] by blast
  from rest(2) have "\<forall>e\<in>set rest. nextId s < entryId e"
    by (auto simp: addAffector_def)
  from filter_id_registered [OF ids(2) this, of dts f D] rest(1)
  show "filter (\<lambda>e. entryId e = nextId s) (mAffectors (updates dts (fst (addAffector f D s)))) =
           (case remaining D dts of None \<Rightarrow> []
            | Some t \<Rightarrow> [\<lparr>func = f, timeUntilRemoval = t, entryId = nextId s\<rparr>])"
    by (simp add: addAffector_def)
qed (simp_all add: calledIds_newEvents)

theorem C6_witness:
  "wellFormed (newParticleSystem (2, 2) 0) \<and>
   filter (\<lambda>e. entryId e = 0)
     (mEmitters (updates [1500000] (fst (addEmitter exEmitter 1000000 (newParticleSystem (2, 2) 0))))) = [] \<and>
   filter (\<lambda>e. entryId e = 0)
     (mAffectors (updates [400000, 500000] (fst (addAffector redAffector 1000000 (newParticleSystem (2, 2) 0))))) =
     [\<lparr>func = redAffector, timeUntilRemoval = 100000, entryId = 0\<rparr>] \<and>
   emitterCalledIds (newEvents 1500000 (fst (addEmitter exEmitter 1000000 (newParticleSystem (2, 2) 0)))) = [0] \<and>
   mParticles (update 500000 exSystem) =
     [exParticle\<lparr>position := (1/2, 0), color := red, passedLifetime := 500000\<rparr>] \<and>
   emitterCalledIds (newEvents 400000 (update 500000 exSystem)) = [1] \<and>
   affectorCalledIds (newEvents 400000 (update 500000 exSystem)) = [0, 0] \<and>
   affectorCalledIds (newEvents 600000 (update 500000 exSystem)) = [0]"
proof -
  let ?p = "exParticle\<lparr>position := (1/2, 0), color := red, passedLifetime := 500000\<rparr>"
  let ?r = "update 500000 exSystem"
  have wf: "wellFormed (newParticleSystem (2, 2) 0)"
    by (simp add: newParticleSystem_def newParticleSystemRect_def wellFormed_def)
  have n: "nextId (newParticleSystem (2, 2) 0) = 0"
    by (simp add: newParticleSystem_def newParticleSystemRect_def)
  have r1: "remaining 1000000 [1500000] = None"
    by (simp add: remaining_def)
  have r2: "remaining 1000000 [400000, 500000] = Some 100000"
    by (simp add: remaining_def less_Suc_eq)
  have m: "map entryId (mEmitters (fst (addEmitter exEmitter 1000000 (newParticleSystem (2, 2) 0)))) = [0]"
    by (simp add: addEmitter_def newParticleSystem_def newParticleSystemRect_def)
  have live: "alive (updateParticle exParticle dt) = (dt < 1000000)" for dt
    by (simp add: alive_def updateParticle_def exParticle_def Let_def)
  have live': "alive (updateParticle ?p dt) = (500000 + dt < 1000000)" for dt
    by (simp add: alive_def updateParticle_def exParticle_def Let_def)
  have ps: "mParticles ?r = [?p]"
    by (simp add: update_fields exSystem_emitted survivors_def integrated_def live affect_def
        redAffector_def) (simp add: updateParticle_exParticle)
  have as: "mAffectors ?r = [\<lparr>func = redAffector, timeUntilRemoval = 0, entryId = 0\<rparr>]"
    by (simp add: update_fields exSystem_emitted List.map_filter_simps expire_def)
  have es: "mEmitters ?r = [\<lparr>func = exEmitter, timeUntilRemoval = 0, entryId = 1\<rparr>]"
    by (simp add: update_fields exSystem_fields List.map_filter_simps expire_def)
  have em: "emissions [\<lparr>func = exEmitter, timeUntilRemoval = t, entryId = i\<rparr>] dt = [EmitParticle exParticle]"
    for t i dt
    by (simp add: emissions_def exEmitter_def)
  from C6_expiry_of_registrations [OF wf, where dts = "[1500000]" and g = exEmitter and D = 1000000
      and dt = 1500000 and r = "fst (addEmitter exEmitter 1000000 (newParticleSystem (2, 2) 0))"]
    C6_expiry_of_registrations [OF wf, where dts = "[400000, 500000]" and f = redAffector and D = 1000000
      and dt = 400000 and r = ?r]
    C6_expiry_of_registrations [OF wf, where dt = 600000 and r = ?r]
    wf
  show ?thesis
    by (simp add: n r1 r2 m ps as es em live live')
qed


section \<open>Drawing\<close>

text \<open>The four vertices the loop body appends for one particle.\<close>

definition quad :: "Vector2f list \<Rightarrow> Vector2f list \<Rightarrow> Particle \<Rightarrow> Vertex list" where
  "quad offsets coords p =
     (let transform = Transform_scale
            (Transform_rotate (Transform_translate Transform_Identity (position p)) (rotation p))
            (scale p)
      in map (\<lambda>i. Vertex (transformPoint transform (offsets ! i)) (color p) (coords ! i)) [0..<4])"

lemma fold_append_vertex:
  "fold (\<lambda>i s'. s'\<lparr>mVertices := mVertices s' @ [v i]\<rparr>) ks s =
     s\<lparr>mVertices := mVertices s @ map v ks\<rparr>"
  by (induction ks arbitrary: s) simp_all

lemma appendQuad_eq:
  "appendQuad offsets coords p s = s\<lparr>mVertices := mVertices s @ quad offsets coords p\<rparr>"
  by (simp add: appendQuad_def quad_def Let_def fold_append_vertex)

lemma fold_appendQuad:
  "fold (appendQuad offsets coords) ps s =
     s\<lparr>mVertices := mVertices s @ concat (map (quad offsets coords) ps)\<rparr>"
  by (induction ps arbitrary: s) (simp_all add: appendQuad_eq)

lemma computeVertices_eq:
  "computeVertices s =
     s\<lparr>mVertices := concat (map (quad (positionOffsets s) (texCoords s)) (mParticles s)),
       mTrace := mTrace s @ [VerticesComputed]\<rparr>"
  by (simp add: computeVertices_def fold_appendQuad)

lemma draw_eq:
  "draw s =
     (if mNeedsVertexUpdate s then
        (s\<lparr>mVertices := concat (map (quad (positionOffsets s) (texCoords s)) (mParticles s)),
           mTrace := mTrace s @ [VerticesComputed], mNeedsVertexUpdate := False\<rparr>,
         concat (map (quad (positionOffsets s) (texCoords s)) (mParticles s)), mTexture s)
      else (s, mVertices s, mTexture s))"
  by (simp add: draw_def computeVertices_eq)

text \<open>
  Claim C9: the second of two draws in a row hands the same vertices and texture to the
  render target as the first and leaves the particle system as the first draw left it, so
  that the vertices are computed at most once. A draw changes nothing but the vertex
  cache, its flag and the ghost trace.
\<close>

theorem C9_draw_twice:
  "snd (draw (fst (draw s))) = snd (draw s) \<and>
   fst (draw (fst (draw s))) = fst (draw s) \<and>
   count_list (mTrace (fst (draw (fst (draw s))))) VerticesComputed
     \<le> count_list (mTrace s) VerticesComputed + 1 \<and>
   fst (draw s) = s\<lparr>mVertices := mVertices (fst (draw s)),
                    mNeedsVertexUpdate := False,
                    mTrace := mTrace (fst (draw s))\<rparr> \<and>
   mParticles (fst (draw s)) = mParticles s \<and>
   mAffectors (fst (draw s)) = mAffectors s \<and>
   mEmitters (fst (draw s)) = mEmitters s \<and>
   nextId (fst (draw s)) = nextId s \<and>
   mTexture (fst (draw s)) = mTexture s \<and>
   mTextureRect (fst (draw s)) = mTextureRect s"
  by (simp add: draw_eq)


section \<open>Invariants of the registries\<close>

lemma map_entryId_map_filter_expire:
  "map entryId (List.map_filter (expire dt) es) = map entryId (filter (\<lambda>e. expire dt e \<noteq> None) es)"
  by (induction es) (auto simp: List.map_filter_simps split: option.splits dest: expire_entryId)

lemma distinct_map_filter_expire:
  "distinct (map entryId es) \<Longrightarrow> distinct (map entryId (List.map_filter (expire dt) es))"
  by (simp add: map_entryId_map_filter_expire distinct_map_filter)

lemma set_map_filter_expire:
  "e' \<in> set (List.map_filter (expire dt) es) \<Longrightarrow>
   \<exists>e\<in>set es. entryId e' = entryId e \<and> func e' = func e"
  by (auto simp: set_map_filter dest: expire_entryId)

lemma set_eraseId: "set (eraseId i es) \<subseteq> set es"
  by (induction es) auto

lemma eraseId_filter:
  "distinct (map entryId es) \<Longrightarrow> eraseId i es = filter (\<lambda>e. entryId e \<noteq> i) es"
proof (induction es)
  case Nil
  then show ?case by simp
next
  case (Cons e es)
  show ?case
  proof (cases "entryId e = i")
    case True
    with Cons.prems have "\<forall>x\<in>set es. entryId x \<noteq> i" by (force simp: image_iff)
    then have "filter (\<lambda>e. entryId e \<noteq> i) es = es" by (simp add: filter_id_conv)
    with True show ?thesis by simp
  next
    case False
    with Cons show ?thesis by simp
  qed
qed

lemma distinct_eraseId: "distinct (map entryId es) \<Longrightarrow> distinct (map entryId (eraseId i es))"
  by (simp add: eraseId_filter distinct_map_filter)

lemma distinct_filter_id_length:
  "distinct (map entryId es) \<Longrightarrow> length (filter (\<lambda>e. entryId e = i) es) \<le> 1"
proof (induction es)
  case Nil
  then show ?case by simp
next
  case (Cons e es)
  show ?case
  proof (cases "entryId e = i")
    case True
    with Cons.prems have "\<forall>x\<in>set es. entryId x \<noteq> i" by (force simp: image_iff)
    then have "filter (\<lambda>e. entryId e = i) es = []" by (simp add: filter_empty_conv)
    with True show ?thesis by simp
  next
    case False
    with Cons show ?thesis by simp
  qed
qed

lemma wellFormed_new: "wellFormed (newParticleSystemRect texture rect n)"
  by (simp add: wellFormed_def newParticleSystemRect_def)

lemma wellFormed_addAffector: "wellFormed s \<Longrightarrow> wellFormed (fst (addAffector f t s))"
  by (fastforce simp: wellFormed_def addAffector_def)

lemma wellFormed_addEmitter: "wellFormed s \<Longrightarrow> wellFormed (fst (addEmitter g t s))"
  by (fastforce simp: wellFormed_def addEmitter_def)

lemma in_set_eraseId: "e \<in> set (eraseId i es) \<Longrightarrow> e \<in> set es"
  using set_eraseId [of i es] by blast

lemma wellFormed_disconnect: "wellFormed s \<Longrightarrow> wellFormed (disconnect c s)"
  by (cases c) (auto simp: wellFormed_def distinct_eraseId dest: in_set_eraseId)

lemma wellFormed_draw: "wellFormed s \<Longrightarrow> wellFormed (fst (draw s))"
  by (simp add: draw_eq wellFormed_def)

lemma wellFormed_update:
  assumes "wellFormed s"
  shows "wellFormed (update dt s)"
proof -
  let ?new = "affectorsOf (nextId s) (emissions (mEmitters s) dt)"
  from assms have a: "\<forall>e\<in>set (mAffectors s). entryId e < nextId s"
    and e: "\<forall>e\<in>set (mEmitters s). entryId e < nextId s"
    and da: "distinct (map entryId (mAffectors s))"
    and de: "distinct (map entryId (mEmitters s))"
    by (simp_all add: wellFormed_def)
  have "distinct (map entryId (mAffectors s @ ?new))"
    using da a by (auto simp: distinct_affectorsOf dest!: affectorsOf_ids)
  then have 1: "distinct (map entryId (mAffectors (update dt s)))"
    by (simp only: update_fields emitted_fields distinct_map_filter_expire)
  have 2: "distinct (map entryId (mEmitters (update dt s)))"
    using de by (simp only: update_fields distinct_map_filter_expire)
  have 3: "\<forall>e\<in>set (mAffectors (update dt s)). entryId e < nextId (update dt s)"
  proof
    fix x assume "x \<in> set (mAffectors (update dt s))"
    then obtain y where "y \<in> set (mAffectors s @ ?new)" "entryId x = entryId y"
      by (auto simp: update_fields emitted_fields dest!: set_map_filter_expire)
    with a show "entryId x < nextId (update dt s)"
      by (auto simp: update_fields emitted_fields dest: affectorsOf_ids_less)
  qed
  have 4: "\<forall>e\<in>set (mEmitters (update dt s)). entryId e < nextId (update dt s)"
  proof
    fix x assume "x \<in> set (mEmitters (update dt s))"
    then obtain y where "y \<in> set (mEmitters s)" "entryId x = entryId y"
      by (auto simp: update_fields dest!: set_map_filter_expire)
    with e show "entryId x < nextId (update dt s)"
      by (auto simp: update_fields emitted_fields)
  qed
  from 1 2 3 4 show ?thesis
    by (simp add: wellFormed_def)
qed


lemma wellFormed_step: "step s s' \<Longrightarrow> wellFormed s \<Longrightarrow> wellFormed s'"
proof (induction rule: step.induct)
  case (step_clearAffectors s)
  then show ?case by (simp add: wellFormed_def clearAffectors_def)
next
  case (step_clearEmitters s)
  then show ?case by (simp add: wellFormed_def clearEmitters_def)
next
  case (step_clearParticles s)
  then show ?case by (simp add: wellFormed_def clearParticles_def)
qed (simp_all add: wellFormed_addAffector wellFormed_addEmitter wellFormed_update
    wellFormed_draw wellFormed_disconnect)

text \<open>
  An identity stays with its callback: the entries of a registry with identity \<open>i\<close> carry
  the callback \<open>f\<close>. This is kept by every operation once \<open>i\<close> is below the counter.
\<close>

definition carries :: "'f Entry list \<Rightarrow> nat \<Rightarrow> 'f \<Rightarrow> bool" where
  "carries es i f = (\<forall>e\<in>set es. entryId e = i \<longrightarrow> func e = f)"

definition tracked :: "nat \<Rightarrow> AffectorFunction \<Rightarrow> EmitterFunction \<Rightarrow> ParticleSystem \<Rightarrow> bool" where
  "tracked i f g s = (wellFormed s \<and> i < nextId s \<and> carries (mAffectors s) i f \<and> carries (mEmitters s) i g)"

lemma carries_map_filter_expire:
  "carries es i f \<Longrightarrow> carries (List.map_filter (expire dt) es) i f"
  unfolding carries_def by (metis set_map_filter_expire)

lemma carries_eraseId: "carries es i f \<Longrightarrow> carries (eraseId j es) i f"
  unfolding carries_def by (blast dest: in_set_eraseId)

lemma carries_append_new:
  "carries es i f \<Longrightarrow> \<forall>e\<in>set new. i < entryId e \<Longrightarrow> carries (es @ new) i f"
  unfolding carries_def by auto

lemma tracked_update:
  assumes "tracked i f g s"
  shows "tracked i f g (update dt s)"
proof -
  let ?new = "affectorsOf (nextId s) (emissions (mEmitters s) dt)"
  from assms have i: "i < nextId s" by (simp add: tracked_def)
  then have "\<forall>e\<in>set ?new. i < entryId e"
    by (auto dest!: affectorsOf_ids)
  with assms have "carries (mAffectors s @ ?new) i f"
    by (simp add: tracked_def carries_append_new)
  then have "carries (mAffectors (update dt s)) i f"
    by (simp add: update_fields emitted_fields carries_map_filter_expire)
  moreover from assms have "carries (mEmitters (update dt s)) i g"
    by (simp add: update_fields tracked_def carries_map_filter_expire)
  moreover from i have "i < nextId (update dt s)"
    by (simp add: update_fields emitted_fields)
  moreover from assms have "wellFormed (update dt s)"
    by (simp add: tracked_def wellFormed_update)
  ultimately show ?thesis
    by (simp add: tracked_def)
qed

lemma tracked_step: "step s s' \<Longrightarrow> tracked i f g s \<Longrightarrow> tracked i f g s'"
proof (induction rule: step.induct)
  case (step_addAffector s f' t)
  then show ?case
    using wellFormed_addAffector [of s f' t]
    by (auto simp: tracked_def carries_def addAffector_def)
next
  case (step_addEmitter s g' t)
  then show ?case
    using wellFormed_addEmitter [of s g' t]
    by (auto simp: tracked_def carries_def addEmitter_def)
next
  case (step_clearAffectors s)
  then show ?case by (simp add: tracked_def wellFormed_def carries_def clearAffectors_def)
next
  case (step_clearEmitters s)
  then show ?case by (simp add: tracked_def wellFormed_def carries_def clearEmitters_def)
next
  case (step_clearParticles s)
  then show ?case by (simp add: tracked_def wellFormed_def carries_def clearParticles_def)
next
  case (step_update s dt)
  then show ?case by (simp add: tracked_update)
next
  case (step_draw s)
  then show ?case
    using wellFormed_draw [of s] by (simp add: tracked_def) (simp add: draw_eq)
next
  case (step_disconnect s c)
  then show ?case
    using wellFormed_disconnect [of s c]
    by (cases c) (simp_all add: tracked_def carries_eraseId)
qed

lemma tracked_steps: "step\<^sup>*\<^sup>* s s' \<Longrightarrow> tracked i f g s \<Longrightarrow> tracked i f g s'"
  by (induction rule: rtranclp_induct) (simp_all add: tracked_step)

lemma tracked_addAffector:
  "wellFormed s \<Longrightarrow> tracked (nextId s) f g (fst (addAffector f t s))"
  using wellFormed_addAffector [of s f t]
  by (auto simp: tracked_def carries_def addAffector_def wellFormed_def)

lemma tracked_addEmitter:
  "wellFormed s \<Longrightarrow> tracked (nextId s) f g (fst (addEmitter g t s))"
  using wellFormed_addEmitter [of s g t]
  by (auto simp: tracked_def carries_def addEmitter_def wellFormed_def)

lemma filter_id_cases:
  assumes "distinct (map entryId es)" and "carries es i f"
  shows "filter (\<lambda>e. entryId e = i) es = [] \<or>
         (\<exists>t. filter (\<lambda>e. entryId e = i) es = [\<lparr>func = f, timeUntilRemoval = t, entryId = i\<rparr>])"
proof (cases "filter (\<lambda>e. entryId e = i) es")
  case Nil
  then show ?thesis by simp
next
  case (Cons e rest)
  from distinct_filter_id_length [OF assms(1), of i] Cons have "rest = []" by simp
  moreover from Cons have "e \<in> set (filter (\<lambda>e. entryId e = i) es)" by simp
  then have "entryId e = i" "func e = f"
    using assms(2) by (auto simp: carries_def)
  then have "e = \<lparr>func = f, timeUntilRemoval = timeUntilRemoval e, entryId = i\<rparr>"
    by simp
  ultimately show ?thesis using Cons by metis
qed

lemma eraseId_absent: "i \<notin> entryId ` set es \<Longrightarrow> eraseId i es = es"
  by (induction es) auto

lemma eraseId_twice: "distinct (map entryId es) \<Longrightarrow> eraseId i (eraseId i es) = eraseId i es"
  by (simp add: eraseId_filter distinct_map_filter)


text \<open>
  Claim C8: a connection is obtained by registering an affector or an emitter in a
  well-formed particle system, and the host then performs any number of operations.
  Disconnecting removes from the registry exactly the entries with the identity of the
  connection and leaves everything else as it is. There is at most one such entry, and it
  is the registered one (with its callback, whatever its remaining time). When there is
  none, disconnecting changes nothing; in particular disconnecting twice is the same as
  disconnecting once.
\<close>

theorem C8_disconnect_by_identity:
  assumes "wellFormed s0"
    and "step\<^sup>*\<^sup>* (fst (addAffector f t s0)) s"
    and "step\<^sup>*\<^sup>* (fst (addEmitter g t s0)) r"
  shows "snd (addAffector f t s0) = AffectorConnection (nextId s0) \<and>
         disconnect (AffectorConnection (nextId s0)) s =
           s\<lparr>mAffectors := filter (\<lambda>e. entryId e \<noteq> nextId s0) (mAffectors s)\<rparr> \<and>
         (filter (\<lambda>e. entryId e = nextId s0) (mAffectors s) = [] \<or>
          (\<exists>t'. filter (\<lambda>e. entryId e = nextId s0) (mAffectors s) =
             [\<lparr>func = f, timeUntilRemoval = t', entryId = nextId s0\<rparr>])) \<and>
         (nextId s0 \<notin> entryId ` set (mAffectors s) \<longrightarrow>
            disconnect (AffectorConnection (nextId s0)) s = s) \<and>
         disconnect (AffectorConnection (nextId s0)) (disconnect (AffectorConnection (nextId s0)) s) =
           disconnect (AffectorConnection (nextId s0)) s \<and>
         snd (addEmitter g t s0) = EmitterConnection (nextId s0) \<and>
         disconnect (EmitterConnection (nextId s0)) r =
           r\<lparr>mEmitters := filter (\<lambda>e. entryId e \<noteq> nextId s0) (mEmitters r)\<rparr> \<and>
         (filter (\<lambda>e. entryId e = nextId s0) (mEmitters r) = [] \<or>
          (\<exists>t'. filter (\<lambda>e. entryId e = nextId s0) (mEmitters r) =
             [\<lparr>func = g, timeUntilRemoval = t', entryId = nextId s0\<rparr>])) \<and>
         (nextId s0 \<notin> entryId ` set (mEmitters r) \<longrightarrow>
            disconnect (EmitterConnection (nextId s0)) r = r) \<and>
         disconnect (EmitterConnection (nextId s0)) (disconnect (EmitterConnection (nextId s0)) r) =
           disconnect (EmitterConnection (nextId s0)) r"
proof -
  from tracked_steps [OF assms(2) tracked_addAffector [OF assms(1)]]
  have s: "distinct (map entryId (mAffectors s))" "carries (mAffectors s) (nextId s0) f"
    by (simp_all add: tracked_def wellFormed_def)
  from tracked_steps [OF assms(3) tracked_addEmitter [OF assms(1)]]
  have r: "distinct (map entryId (mEmitters r))" "carries (mEmitters r) (nextId s0) g"
    by (simp_all add: tracked_def wellFormed_def)
  have a1: "disconnect (AffectorConnection (nextId s0)) s =
      s\<lparr>mAffectors := filter (\<lambda>e. entryId e \<noteq> nextId s0) (mAffectors s)\<rparr>"
    by (simp add: eraseId_filter [OF s(1)])
  have a2: "nextId s0 \<notin> entryId ` set (mAffectors s) \<longrightarrow>
      disconnect (AffectorConnection (nextId s0)) s = s"
    by (simp add: eraseId_absent)
  have a3: "disconnect (AffectorConnection (nextId s0)) (disconnect (AffectorConnection (nextId s0)) s) =
      disconnect (AffectorConnection (nextId s0)) s"
    by (simp add: eraseId_twice [OF s(1)])
  have e1: "disconnect (EmitterConnection (nextId s0)) r =
      r\<lparr>mEmitters := filter (\<lambda>e. entryId e \<noteq> nextId s0) (mEmitters r)\<rparr>"
    by (simp add: eraseId_filter [OF r(1)])
  have e2: "nextId s0 \<notin> entryId ` set (mEmitters r) \<longrightarrow>
      disconnect (EmitterConnection (nextId s0)) r = r"
    by (simp add: eraseId_absent)
  have e3: "disconnect (EmitterConnection (nextId s0)) (disconnect (EmitterConnection (nextId s0)) r) =
      disconnect (EmitterConnection (nextId s0)) r"
    by (simp add: eraseId_twice [OF r(1)])
  have c: "snd (addAffector f t s0) = AffectorConnection (nextId s0)"
    "snd (addEmitter g t s0) = EmitterConnection (nextId s0)"
    by (simp_all add: addAffector_def addEmitter_def)
  from c a1 a2 a3 e1 e2 e3 filter_id_cases [OF s] filter_id_cases [OF r] show ?thesis
    by blast
qed

theorem C8_witness:
  "wellFormed (newParticleSystem (2, 2) 0) \<and>
   step\<^sup>*\<^sup>* (fst (addAffector redAffector 0 (newParticleSystem (2, 2) 0)))
     (fst (addAffector killer 7 (fst (addAffector redAffector 0 (newParticleSystem (2, 2) 0))))) \<and>
   step\<^sup>*\<^sup>* (fst (addEmitter exEmitter 0 (newParticleSystem (2, 2) 0)))
     (fst (addEmitter exEmitter 0 (newParticleSystem (2, 2) 0))) \<and>
   mAffectors (disconnect (snd (addAffector redAffector 0 (newParticleSystem (2, 2) 0)))
     (fst (addAffector killer 7 (fst (addAffector redAffector 0 (newParticleSystem (2, 2) 0)))))) =
     [\<lparr>func = killer, timeUntilRemoval = 7, entryId = 1\<rparr>] \<and>
   mEmitters (disconnect (snd (addEmitter exEmitter 0 (newParticleSystem (2, 2) 0)))
     (fst (addEmitter exEmitter 0 (newParticleSystem (2, 2) 0)))) = []"
proof -
  let ?s0 = "newParticleSystem (2, 2) 0"
  have wf: "wellFormed ?s0"
    by (simp add: newParticleSystem_def wellFormed_new)
  have st: "step\<^sup>*\<^sup>* (fst (addAffector redAffector 0 ?s0))
      (fst (addAffector killer 7 (fst (addAffector redAffector 0 ?s0))))"
    by (rule r_into_rtranclp) (rule step_addAffector)
  have st': "step\<^sup>*\<^sup>* (fst (addEmitter exEmitter 0 ?s0)) (fst (addEmitter exEmitter 0 ?s0))"
    by simp
  from C8_disconnect_by_identity [OF wf st st'] wf st show ?thesis
    by (simp add: addAffector_def addEmitter_def newParticleSystem_def newParticleSystemRect_def)
qed


section \<open>Invalidation of the vertex cache\<close>

text \<open>What a rebuild of the cache computes from the particle store.\<close>

definition meshOf :: "ParticleSystem \<Rightarrow> Vertex list" where
  "meshOf s = concat (map (quad (positionOffsets s) (texCoords s)) (mParticles s))"

lemma drawnSystem_fields:
  "mParticles drawnSystem = [exParticle\<lparr>position := (1/2, 0), color := red, passedLifetime := 500000\<rparr>]"
  "\<not> mNeedsVertexUpdate drawnSystem"
  "length (mVertices drawnSystem) = 4"
  "mVertices drawnSystem = meshOf drawnSystem"
  apply (simp_all add: drawnSystem_def draw_eq update_fields exSystem_emitted meshOf_def
    survivors_def integrated_def updateParticle_exParticle alive_def affect_def redAffector_def quad_def
    positionOffsets_def texCoords_def)
  apply (simp_all add: exParticle_def)
  done

text \<open>
  Claim C4 as stated fails. In the example, after an update and a draw the flag of the
  cache is off, and it stays off when an affector is added, when the affectors are cleared
  and when the particles are cleared. After clearing the particles the store is empty,
  and the next draw still hands the four vertices of the removed particle to the render
  target.
\<close>

theorem C4_counterexample:
  "\<not> mNeedsVertexUpdate drawnSystem \<and>
   \<not> mNeedsVertexUpdate (fst (addAffector redAffector 0 drawnSystem)) \<and>
   \<not> mNeedsVertexUpdate (clearAffectors drawnSystem) \<and>
   \<not> mNeedsVertexUpdate (clearParticles drawnSystem) \<and>
   mParticles (clearParticles drawnSystem) = [] \<and>
   length (fst (snd (draw (clearParticles drawnSystem)))) = 4"
  by (simp add: drawnSystem_fields(1-3) addAffector_def clearAffectors_def clearParticles_def draw_eq)

text \<open>
  Claim C4, amended: the update marks the cache invalid, whatever else it does, so that a
  draw after an update hands over the vertices of the particle store the update has left.
  The operations that change a registry only (adding an affector or an emitter, clearing
  the affectors or the emitters) leave the flag as it is, and a draw after them hands over
  what a draw before them would have handed over.
\<close>

theorem C4_update_invalidates_cache:
  "mNeedsVertexUpdate (update dt s) \<and>
   fst (snd (draw (update dt s))) = meshOf (update dt s) \<and>
   mNeedsVertexUpdate (fst (addAffector f t s)) = mNeedsVertexUpdate s \<and>
   fst (snd (draw (fst (addAffector f t s)))) = fst (snd (draw s)) \<and>
   mNeedsVertexUpdate (fst (addEmitter g t s)) = mNeedsVertexUpdate s \<and>
   fst (snd (draw (fst (addEmitter g t s)))) = fst (snd (draw s)) \<and>
   mNeedsVertexUpdate (clearAffectors s) = mNeedsVertexUpdate s \<and>
   fst (snd (draw (clearAffectors s))) = fst (snd (draw s)) \<and>
   mNeedsVertexUpdate (clearEmitters s) = mNeedsVertexUpdate s \<and>
   fst (snd (draw (clearEmitters s))) = fst (snd (draw s))"
  by (simp add: update_fields draw_eq meshOf_def addAffector_def addEmitter_def
      clearAffectors_def clearEmitters_def positionOffsets_def texCoords_def)


section \<open>The vertices of a particle\<close>

text \<open>
  What the elementary transforms do to a point: the specification's rotation, scaling and
  translation are the following maps.
\<close>

definition rotatePoint :: "real \<Rightarrow> Vector2f \<Rightarrow> Vector2f" where
  "rotatePoint angle v =
     (cos (angle * pi / 180) * fst v - sin (angle * pi / 180) * snd v,
      sin (angle * pi / 180) * fst v + cos (angle * pi / 180) * snd v)"

definition scalePoint :: "Vector2f \<Rightarrow> Vector2f \<Rightarrow> Vector2f" where
  "scalePoint factors v = (fst factors * fst v, snd factors * snd v)"

definition translatePoint :: "Vector2f \<Rightarrow> Vector2f \<Rightarrow> Vector2f" where
  "translatePoint offset v = (fst v + fst offset, snd v + snd offset)"

lemma transformPoint_elementary:
  "transformPoint (Transform_rotate Transform_Identity angle) v = rotatePoint angle v"
  "transformPoint (Transform_scale Transform_Identity factors) v = scalePoint factors v"
  "transformPoint (Transform_translate Transform_Identity offset) v = translatePoint offset v"
  by (simp_all add: transformPoint_def Transform_rotate_def Transform_scale_def
      Transform_translate_def Transform_combine_def Transform_Identity_def rotatePoint_def
      scalePoint_def translatePoint_def Let_def)

lemma transformPoint_particle:
  "transformPoint
     (Transform_scale (Transform_rotate (Transform_translate Transform_Identity t) angle) factors) v =
   translatePoint t (rotatePoint angle (scalePoint factors v))"
  by (simp add: transformPoint_def Transform_rotate_def Transform_scale_def
      Transform_translate_def Transform_combine_def Transform_Identity_def rotatePoint_def
      scalePoint_def translatePoint_def Let_def algebra_simps)

text \<open>
  The vertices in the words of the specification: each corner is rotated, then scaled,
  then translated.
\<close>

definition specQuad :: "Vector2f list \<Rightarrow> Vector2f list \<Rightarrow> Particle \<Rightarrow> Vertex list" where
  "specQuad offsets coords p =
     map (\<lambda>i. Vertex (translatePoint (position p)
                        (scalePoint (scale p) (rotatePoint (rotation p) (offsets ! i))))
                (color p) (coords ! i)) [0..<4]"

definition specVertices :: "ParticleSystem \<Rightarrow> Vertex list" where
  "specVertices s = concat (map (specQuad (positionOffsets s) (texCoords s)) (mParticles s))"

lemma rotSystem_fields:
  "mParticles rotSystem = [rotParticle]"
  "mTexture rotSystem = (2, 2)"
  "mTextureRect rotSystem = (0, 0, 2, 2)"
  apply (simp_all add: rotSystem_def update_fields emitted_fields addEmitter_def newParticleSystem_def
      newParticleSystemRect_def emissions_def survivors_def integrated_def affect_def)
  apply (simp add: updateParticle_def alive_def rotParticle_def exParticle_def asSeconds_def Let_def)
  done

lemma upt_4: "[0..<4] = [0, 1, 2, 3]"
  by (simp add: numeral_eq_Suc)

text \<open>
  Claim C5 as stated fails: the source builds the transform by \<^verbatim>\<open>translate\<close>, \<^verbatim>\<open>rotate\<close>,
  \<^verbatim>\<open>scale\<close> in this order, each multiplying from the right, so a corner is scaled first,
  then rotated, then translated. For a particle rotated by 90 degrees and scaled by (2, 1)
  the vertices differ from those of the order rotation, scaling, translation.
\<close>

theorem C5_counterexample:
  "mVertices (computeVertices rotSystem) =
     [Vertex (1, -2) white (0, 0), Vertex (-1, -2) white (2, 0),
      Vertex (-1, 2) white (2, 2), Vertex (1, 2) white (0, 2)] \<and>
   specVertices rotSystem =
     [Vertex (2, -1) white (0, 0), Vertex (-2, -1) white (2, 0),
      Vertex (-2, 1) white (2, 2), Vertex (2, 1) white (0, 2)] \<and>
   mVertices (computeVertices rotSystem) \<noteq> specVertices rotSystem"
  by (simp add: computeVertices_eq specVertices_def rotSystem_fields quad_def specQuad_def
      transformPoint_particle positionOffsets_def texCoords_def rotParticle_def exParticle_def
      translatePoint_def rotatePoint_def scalePoint_def negated_def perpendicularVector_def
      upt_4 Let_def)

text \<open>
  Claim C5, amended: on a rebuild every particle contributes, in store order, exactly four
  vertices. They are the four corners of the base quad (the negated half extent of the
  texture, its perpendicular vector, the half extent, the negated perpendicular vector),
  each scaled by the particle's scale, then rotated by the particle's rotation, then
  translated by the particle's position. The texture coordinates are the corners left/top,
  right/top, right/bottom, left/bottom of the source rectangle, the same for all
  particles, and the colour of each vertex is the particle's colour.
\<close>

theorem C5_vertices_scaled_rotated_translated:
  "mVertices (computeVertices s) =
     concat (map (\<lambda>p. map (\<lambda>i. Vertex
         (translatePoint (position p) (rotatePoint (rotation p) (scalePoint (scale p)
            (positionOffsets s ! i))))
         (color p) (texCoords s ! i)) [0, 1, 2, 3]) (mParticles s)) \<and>
   length (mVertices (computeVertices s)) = 4 * length (mParticles s) \<and>
   positionOffsets s =
     [(- (real (fst (mTexture s)) / 2), - (real (snd (mTexture s)) / 2)),
      (- (real (snd (mTexture s)) / 2), real (fst (mTexture s)) / 2),
      (real (fst (mTexture s)) / 2, real (snd (mTexture s)) / 2),
      (real (snd (mTexture s)) / 2, - (real (fst (mTexture s)) / 2))] \<and>
   texCoords s =
     (case mTextureRect s of (rleft, rtop, rwidth, rheight) \<Rightarrow>
        [(real_of_int rleft, real_of_int rtop),
         (real_of_int (rleft + rwidth), real_of_int rtop),
         (real_of_int (rleft + rwidth), real_of_int (rtop + rheight)),
         (real_of_int rleft, real_of_int (rtop + rheight))])"
proof -
  have "quad offs coords =
      (\<lambda>p. map (\<lambda>i. Vertex
         (translatePoint (position p) (rotatePoint (rotation p) (scalePoint (scale p) (offs ! i))))
         (color p) (coords ! i)) [0, 1, 2, 3])" for offs coords
    by (rule ext) (simp add: quad_def transformPoint_particle upt_4 Let_def)
  then have verts: "mVertices (computeVertices s) =
     concat (map (\<lambda>p. map (\<lambda>i. Vertex
         (translatePoint (position p) (rotatePoint (rotation p) (scalePoint (scale p)
            (positionOffsets s ! i))))
         (color p) (texCoords s ! i)) [0, 1, 2, 3]) (mParticles s))"
    by (simp add: computeVertices_eq)
  have "length (concat (map (quad offs coords) ps)) = 4 * length ps" for offs coords ps
    by (induction ps) (simp_all add: quad_def)
  then have len: "length (mVertices (computeVertices s)) = 4 * length (mParticles s)"
    by (simp add: computeVertices_eq)
  have offs: "positionOffsets s =
     [(- (real (fst (mTexture s)) / 2), - (real (snd (mTexture s)) / 2)),
      (- (real (snd (mTexture s)) / 2), real (fst (mTexture s)) / 2),
      (real (fst (mTexture s)) / 2, real (snd (mTexture s)) / 2),
      (real (snd (mTexture s)) / 2, - (real (fst (mTexture s)) / 2))]"
    by (simp add: positionOffsets_def negated_def perpendicularVector_def Let_def)
  have tex: "texCoords s =
     (case mTextureRect s of (rleft, rtop, rwidth, rheight) \<Rightarrow>
        [(real_of_int rleft, real_of_int rtop),
         (real_of_int (rleft + rwidth), real_of_int rtop),
         (real_of_int (rleft + rwidth), real_of_int (rtop + rheight)),
         (real_of_int rleft, real_of_int (rtop + rheight))])"
    by (simp add: texCoords_def Let_def split: prod.splits)
  from verts len offs tex show ?thesis
    by (intro conjI)
qed


section \<open>Particles killed by an affector\<close>

lemma not_alive_updateParticle: "\<not> alive q \<Longrightarrow> 0 \<le> dt \<Longrightarrow> \<not> alive (updateParticle q dt)"
  by (simp add: alive_def updateParticle_def Let_def)

lemma integrated_append: "integrated dt (xs @ ys) = integrated dt xs @ integrated dt ys"
  by (simp add: integrated_def)

lemma integrated_erase:
  assumes "k < length ps" and "\<not> alive (updateParticle (ps ! k) dt)"
  shows "integrated dt (erase ps k) = integrated dt ps"
proof -
  have "ps = take k ps @ ps ! k # drop (Suc k) ps"
    using assms(1) by (simp add: id_take_nth_drop [symmetric])
  then have "integrated dt ps = integrated dt (take k ps) @ integrated dt (ps ! k # drop (Suc k) ps)"
    by (metis integrated_append)
  also have "\<dots> = integrated dt (take k ps) @ integrated dt (drop (Suc k) ps)"
    using assms(2) by (simp add: integrated_def)
  finally show ?thesis
    by (simp add: erase_def integrated_append)
qed

lemma update_without_dead:
  assumes "k < length (mParticles s)" and "\<not> alive (updateParticle (mParticles s ! k) dt)"
  shows "mParticles (update dt (s\<lparr>mParticles := erase (mParticles s) k\<rparr>)) = mParticles (update dt s)"
    and "newEvents dt (s\<lparr>mParticles := erase (mParticles s) k\<rparr>) = newEvents dt s"
  using integrated_erase [OF assms]
  by (simp_all add: update_fields newEvents_eq emitted_fields survivors_def integrated_append)


text \<open>
  Claim C10: a particle that is alive after the integration of an update is kept by this
  update even when the affectors leave it with a passed lifetime that has reached the
  total one. In the next update (whose elapsed time is not negative) it fails the test
  after integration: the update has the same result, and makes the same calls, as if the
  particle had not been in the store.
\<close>

theorem C10_retention_decided_before_affectors:
  assumes "p \<in> set (mParticles (emitted dt s))"
    and "alive (updateParticle p dt)"
    and "\<not> alive (affect (mAffectors (emitted dt s)) dt (updateParticle p dt))"
    and "0 \<le> dt'"
  shows "affect (mAffectors (emitted dt s)) dt (updateParticle p dt) \<in> set (mParticles (update dt s)) \<and>
         \<not> alive (updateParticle (affect (mAffectors (emitted dt s)) dt (updateParticle p dt)) dt') \<and>
         (\<forall>k<length (mParticles (update dt s)).
            mParticles (update dt s) ! k = affect (mAffectors (emitted dt s)) dt (updateParticle p dt) \<longrightarrow>
            mParticles (update dt' (update dt s)) =
              mParticles (update dt' ((update dt s)\<lparr>mParticles := erase (mParticles (update dt s)) k\<rparr>)) \<and>
            newEvents dt' (update dt s) =
              newEvents dt' ((update dt s)\<lparr>mParticles := erase (mParticles (update dt s)) k\<rparr>))"
proof (intro conjI allI impI)
  let ?q = "affect (mAffectors (emitted dt s)) dt (updateParticle p dt)"
  from assms(1,2) show "?q \<in> set (mParticles (update dt s))"
    by (simp add: update_fields survivors_def integrated_def)
  from assms(3,4) show dead: "\<not> alive (updateParticle ?q dt')"
    by (rule not_alive_updateParticle)
  fix k
  assume k: "k < length (mParticles (update dt s))" "mParticles (update dt s) ! k = ?q"
  with dead have "\<not> alive (updateParticle (mParticles (update dt s) ! k) dt')"
    by simp
  from update_without_dead [OF k(1) this]
  show "mParticles (update dt' (update dt s)) =
      mParticles (update dt' ((update dt s)\<lparr>mParticles := erase (mParticles (update dt s)) k\<rparr>))"
    and "newEvents dt' (update dt s) =
      newEvents dt' ((update dt s)\<lparr>mParticles := erase (mParticles (update dt s)) k\<rparr>)"
    by simp_all
qed


lemma killSystem_emitted:
  "mParticles (emitted dt killSystem) = [exParticle]"
  "mAffectors (emitted dt killSystem) = [\<lparr>func = killer, timeUntilRemoval = 0, entryId = 0\<rparr>]"
  by (simp_all add: emitted_fields killSystem_def addEmitter_def addAffector_def
      newParticleSystem_def newParticleSystemRect_def emissions_def exEmitter_def)

lemma killSystem_update: "mParticles (update 500000 killSystem) = [killed]"
  apply (simp add: update_fields killSystem_emitted survivors_def integrated_def
      updateParticle_exParticle alive_def affect_def killer_def killed_def)
  apply (simp add: exParticle_def)
  done

theorem C10_witness:
  "exParticle \<in> set (mParticles (emitted 500000 killSystem)) \<and>
   alive (updateParticle exParticle 500000) \<and>
   affect (mAffectors (emitted 500000 killSystem)) 500000 (updateParticle exParticle 500000) = killed \<and>
   \<not> alive killed \<and>
   killed \<in> set (mParticles (update 500000 killSystem)) \<and>
   \<not> alive (updateParticle killed 0) \<and>
   mParticles (update 0 (update 500000 killSystem)) =
     mParticles (update 0 ((update 500000 killSystem)\<lparr>mParticles := []\<rparr>)) \<and>
   newEvents 0 (update 500000 killSystem) =
     newEvents 0 ((update 500000 killSystem)\<lparr>mParticles := []\<rparr>)"
proof -
  have h1: "exParticle \<in> set (mParticles (emitted 500000 killSystem))"
    by (simp add: killSystem_emitted)
  have h2: "alive (updateParticle exParticle 500000)"
    by (simp add: updateParticle_exParticle alive_def) (simp add: exParticle_def)
  have q: "affect (mAffectors (emitted 500000 killSystem)) 500000 (updateParticle exParticle 500000) = killed"
    by (simp add: killSystem_emitted affect_def killer_def killed_def updateParticle_exParticle)
       (simp add: exParticle_def)
  have h3: "\<not> alive (affect (mAffectors (emitted 500000 killSystem)) 500000 (updateParticle exParticle 500000))"
    unfolding q by (simp add: killed_def alive_def exParticle_def)
  have h4: "(0::int) \<le> 0"
    by simp
  have e: "erase [killed] 0 = []"
    by (simp add: erase_def)
  from C10_retention_decided_before_affectors [OF h1 h2 h3 h4] h1 h2 h3 show ?thesis
    unfolding q by (simp add: killSystem_update e)
qed

end
